theory Spec2Isabelle
  imports Main "HOL-Library.AList"
begin

section \<open>Strings as Python uses them in app.py\<close>

text \<open>
  Strings are byte strings. \<open>lower\<close> is \<^verbatim>\<open>str.lower()\<close> on ASCII text (host names,
  domain names and IP literals): the letters A to Z move to a to z, every other
  character stays.
\<close>

definition lower_char :: "char \<Rightarrow> char" where
  "lower_char c =
     (case map_of (zip ''ABCDEFGHIJKLMNOPQRSTUVWXYZ'' ''abcdefghijklmnopqrstuvwxyz'') c of
        None \<Rightarrow> c
      | Some l \<Rightarrow> l)"

definition lower :: "string \<Rightarrow> string" where
  "lower s = map lower_char s"

text \<open>\<^verbatim>\<open>s.split(sep)\<close> for a one-character separator: never the empty list.\<close>

fun py_split :: "char \<Rightarrow> string \<Rightarrow> string list" where
  "py_split sep [] = [[]]"
| "py_split sep (c # cs) =
     (if c = sep then [] # py_split sep cs
      else (case py_split sep cs of
              [] \<Rightarrow> [[c]]
            | w # ws \<Rightarrow> (c # w) # ws))"

text \<open>\<^verbatim>\<open>s.split('.')[0]\<close>; index 0 always exists.\<close>

definition split_dot_0 :: "string \<Rightarrow> string" where
  "split_dot_0 s = hd (py_split (CHR ''.'') s)"

text \<open>\<^verbatim>\<open>s.endswith(e)\<close>.\<close>

definition endswith :: "string \<Rightarrow> string \<Rightarrow> bool" where
  "endswith s e = (length e \<le> length s \<and> drop (length s - length e) s = e)"

section \<open>Data\<close>

text \<open>One entry of \<^verbatim>\<open>ts_records\<close>: a mesh device, \<^verbatim>\<open>ts_rec['hostname']\<close> and \<^verbatim>\<open>ts_rec['address']\<close>.\<close>

record ts_rec =
  hostname :: string
  address :: string

text \<open>
  One entry of the zone snapshot; the cycle reads \<^verbatim>\<open>c['name']\<close>, \<^verbatim>\<open>c['content']\<close>
  and \<^verbatim>\<open>cf_rec['id']\<close>. (\<open>rec_id\<close> and \<open>rec_type\<close> stand for the keys \<^verbatim>\<open>id\<close> and \<^verbatim>\<open>type\<close>.)
\<close>

record cf_rec =
  rec_id :: string
  name :: string
  content :: string
  rec_type :: string

text \<open>
  The value stored in \<^verbatim>\<open>current_ts_fqdns_ips\<close>: keys \<^verbatim>\<open>fqdn\<close>, \<^verbatim>\<open>address\<close>
  (here \<open>ts_address\<close>, the name of the local it is read into) and \<^verbatim>\<open>original_hostname\<close>.
\<close>

record ts_detail =
  fqdn :: string
  ts_address :: string
  original_hostname :: string

text \<open>
  The configuration keys the cycle reads. \<^verbatim>\<open>config.get("cf-sub")\<close> may be absent
  (\<open>None\<close>) or empty; both are falsy.
\<close>

record config =
  mode :: string
  cf_key :: string
  cf_domain :: string
  cf_sub :: "string option"

text \<open>\<^verbatim>\<open>ipaddress.ip_address(s).version\<close> is 4 or 6.\<close>

datatype ip_version = IPv4 | IPv6

fun records_typemap :: "ip_version \<Rightarrow> string" where
  "records_typemap IPv4 = ''A''"
| "records_typemap IPv6 = ''AAAA''"

datatype py_error = ValueError | NameError

text \<open>
  What one cycle does to the outside: the classification lines it prints and the
  calls it makes to the record mutator, in order. Time stamps, colours and the
  banner lines are left out.
\<close>

datatype event =
    ERROR_zone_id
  | ERROR_zone_records
  | ERROR_invalid_mode string
  | ERROR_mesh_records string
  | ERROR_cleanup_records
  | UP_TO_DATE string string
  | ADDING string string
  | SKIPPING_INVALID_HOSTNAME string string string
  | SKIP_DELETE string string
  | DELETING_STALE string string
  | Call_createDNSRecord string string string string string "string option" string
  | Call_deleteDNSRecord string string string string

text \<open>
  How the cycle ends: it runs to its last statement, it returns early after an
  error line, or an exception leaves it.
\<close>

datatype outcome = Completed | Aborted | Raised py_error

text \<open>
  The collaborators, which live in other modules (cloudflare, tailscale, headscale)
  and in the Python library. Fetchers are given by what they return; the zone
  snapshot depends on the events that happened before the fetch, so that a snapshot
  taken after the creation phase can show the records just created. \<open>ip_address\<close>
  is \<^verbatim>\<open>ipaddress.ip_address\<close>, \<open>None\<close> where it raises ValueError.
\<close>

record collab =
  getZoneId :: "string option"
  getZoneRecords :: "event list \<Rightarrow> cf_rec list option"
  getTailscaleDevice :: "ts_rec list option"
  getHeadscaleDevice :: "ts_rec list option"
  alterHostname :: "string \<Rightarrow> string"
  isValidDNSRecord :: "string \<Rightarrow> bool"
  isTailscaleIP :: "string \<Rightarrow> bool"
  ip_address :: "string \<Rightarrow> ip_version option"

section \<open>The desired state (app.py, lines 60 to 65)\<close>

text \<open>\<^verbatim>\<open>"." + config.get("cf-sub").lower() if config.get("cf-sub") else ""\<close>\<close>

definition sub_part :: "config \<Rightarrow> string" where
  "sub_part cfg =
     (case cf_sub cfg of
        None \<Rightarrow> []
      | Some s \<Rightarrow> if s \<noteq> [] then ''.'' @ lower s else [])"

definition hostname_part :: "collab \<Rightarrow> ts_rec \<Rightarrow> string" where
  "hostname_part env r = alterHostname env (lower (split_dot_0 (hostname r)))"

definition tsfqdn :: "collab \<Rightarrow> config \<Rightarrow> ts_rec \<Rightarrow> string" where
  "tsfqdn env cfg r = hostname_part env r @ sub_part cfg @ ''.'' @ lower (cf_domain cfg)"

definition ts_key :: "collab \<Rightarrow> config \<Rightarrow> ts_rec \<Rightarrow> string" where
  "ts_key env cfg r = tsfqdn env cfg r @ ''_'' @ address r"

definition ts_value :: "collab \<Rightarrow> config \<Rightarrow> ts_rec \<Rightarrow> ts_detail" where
  "ts_value env cfg r =
     \<lparr>fqdn = tsfqdn env cfg r, ts_address = address r, original_hostname = hostname r\<rparr>"

text \<open>
  A Python dict keeps its keys in the order of their first insertion, and assigning
  to a key that is present replaces the value where it stands: \<open>AList.update\<close>.
\<close>

type_synonym ts_dict = "(string \<times> ts_detail) list"

definition dict_add :: "collab \<Rightarrow> config \<Rightarrow> ts_dict \<Rightarrow> ts_rec \<Rightarrow> ts_dict" where
  "dict_add env cfg d r = AList.update (ts_key env cfg r) (ts_value env cfg r) d"

definition current_ts_fqdns_ips :: "collab \<Rightarrow> config \<Rightarrow> ts_rec list \<Rightarrow> ts_dict" where
  "current_ts_fqdns_ips env cfg ts_records = foldl (dict_add env cfg) [] ts_records"

text \<open>\<^verbatim>\<open>key in current_ts_fqdns_ips\<close>\<close>

definition dict_has :: "ts_dict \<Rightarrow> string \<Rightarrow> bool" where
  "dict_has d k = (k \<in> set (map fst d))"

section \<open>The creation phase (lines 68 to 84)\<close>

text \<open>\<^verbatim>\<open>any(c['name'].lower() == tsfqdn and c['content'] == ts_address for c in cf_records_current)\<close>\<close>

definition any_match :: "cf_rec list \<Rightarrow> string \<Rightarrow> string \<Rightarrow> bool" where
  "any_match cf_records_current f a =
     list_ex (\<lambda>c. lower (name c) = f \<and> content c = a) cf_records_current"

text \<open>
  The body of the loop for one item of the dict: the events it adds, and the
  exception that ends the loop, if any.
\<close>

definition creation_step ::
  "collab \<Rightarrow> config \<Rightarrow> string \<Rightarrow> cf_rec list \<Rightarrow> ts_detail \<Rightarrow> event list \<times> py_error option" where
  "creation_step env cfg cf_ZoneId cf_records_current ts_det =
     (if any_match cf_records_current (fqdn ts_det) (ts_address ts_det)
      then ([UP_TO_DATE (fqdn ts_det) (ts_address ts_det)], None)
      else (case ip_address env (ts_address ts_det) of
              None \<Rightarrow> ([], Some ValueError)
            | Some ip \<Rightarrow>
                if isValidDNSRecord env (original_hostname ts_det)
                then ([ADDING (fqdn ts_det) (ts_address ts_det),
                       Call_createDNSRecord (cf_key cfg) (cf_domain cfg)
                         (lower (split_dot_0 (original_hostname ts_det)))
                         (records_typemap ip) (ts_address ts_det) (cf_sub cfg) cf_ZoneId], None)
                else ([SKIPPING_INVALID_HOSTNAME (original_hostname ts_det)
                         (fqdn ts_det) (ts_address ts_det)], None)))"

fun creation_loop ::
  "collab \<Rightarrow> config \<Rightarrow> string \<Rightarrow> cf_rec list \<Rightarrow> ts_dict \<Rightarrow> event list \<times> py_error option" where
  "creation_loop env cfg cf_ZoneId cf_records_current [] = ([], None)"
| "creation_loop env cfg cf_ZoneId cf_records_current ((key, ts_det) # items) =
     (case creation_step env cfg cf_ZoneId cf_records_current ts_det of
        (evs, Some e) \<Rightarrow> (evs, Some e)
      | (evs, None) \<Rightarrow>
          (case creation_loop env cfg cf_ZoneId cf_records_current items of
             (evs', r) \<Rightarrow> (evs @ evs', r)))"

section \<open>The cleanup phase (lines 93 to 124)\<close>

definition expected_ending :: "config \<Rightarrow> string" where
  "expected_ending cfg = sub_part cfg @ ''.'' @ lower (cf_domain cfg)"

text \<open>
  The body of the loop for one zone record. \<^verbatim>\<open>hostname_part_from_cf\<close> is computed
  and never read; the slice cannot fail.
\<close>

definition cleanup_step :: "collab \<Rightarrow> config \<Rightarrow> string \<Rightarrow> ts_dict \<Rightarrow> cf_rec \<Rightarrow> event list" where
  "cleanup_step env cfg cf_ZoneId d cf_r =
     (let cf_rec_fqdn = lower (name cf_r); cf_rec_content = content cf_r in
      if dict_has d (cf_rec_fqdn @ ''_'' @ cf_rec_content) then []
      else if \<not> endswith cf_rec_fqdn (expected_ending cfg) then []
      else if \<not> isTailscaleIP env cf_rec_content
           then [SKIP_DELETE cf_rec_fqdn cf_rec_content]
      else [DELETING_STALE cf_rec_fqdn cf_rec_content,
            Call_deleteDNSRecord (cf_key cfg) (cf_domain cfg) (rec_id cf_r) cf_ZoneId])"

fun cleanup_loop :: "collab \<Rightarrow> config \<Rightarrow> string \<Rightarrow> ts_dict \<Rightarrow> cf_rec list \<Rightarrow> event list" where
  "cleanup_loop env cfg cf_ZoneId d [] = []"
| "cleanup_loop env cfg cf_ZoneId d (cf_r # rest) =
     cleanup_step env cfg cf_ZoneId d cf_r @ cleanup_loop env cfg cf_ZoneId d rest"

section \<open>The cycle (lines 19 to 133)\<close>

text \<open>
  The handlers of the \<^verbatim>\<open>try\<close>. The first clause is
  \<^verbatim>\<open>except requests.exceptions.RequestException\<close>, and app.py never imports
  \<^verbatim>\<open>requests\<close>: matching any exception against it raises NameError, which leaves
  the function.
\<close>

definition except_clauses :: "py_error \<Rightarrow> outcome" where
  "except_clauses e = Raised NameError"

text \<open>The mode dispatch of lines 37 to 45; \<open>None\<close> is the \<^verbatim>\<open>else\<close> branch.\<close>

definition fetch_ts_records :: "collab \<Rightarrow> config \<Rightarrow> ts_rec list option option" where
  "fetch_ts_records env cfg =
     (if mode cfg = ''tailscale'' then Some (getTailscaleDevice env)
      else if mode cfg = ''headscale'' then Some (getHeadscaleDevice env)
      else None)"

definition perform_sync_cycle :: "collab \<Rightarrow> config \<Rightarrow> event list \<times> outcome" where
  "perform_sync_cycle env cfg =
     (case getZoneId env of
        None \<Rightarrow> ([ERROR_zone_id], Aborted)
      | Some cf_ZoneId \<Rightarrow>
          if cf_ZoneId = [] then ([ERROR_zone_id], Aborted)
          else (case getZoneRecords env [] of
                  None \<Rightarrow> ([ERROR_zone_records], Aborted)
                | Some cf_records_current \<Rightarrow>
                    (case fetch_ts_records env cfg of
                       None \<Rightarrow> ([ERROR_invalid_mode (mode cfg)], Aborted)
                     | Some None \<Rightarrow> ([ERROR_mesh_records (mode cfg)], Aborted)
                     | Some (Some ts_records) \<Rightarrow>
                         (let d = current_ts_fqdns_ips env cfg ts_records in
                          case creation_loop env cfg cf_ZoneId cf_records_current d of
                            (evs, Some e) \<Rightarrow> (evs, except_clauses e)
                          | (evs, None) \<Rightarrow>
                              (case getZoneRecords env evs of
                                 None \<Rightarrow> (evs @ [ERROR_cleanup_records], Aborted)
                               | Some cf_records_for_cleanup \<Rightarrow>
                                   (evs @ cleanup_loop env cfg cf_ZoneId d cf_records_for_cleanup,
                                    Completed))))))"

fun is_create :: "event \<Rightarrow> bool" where
  "is_create (Call_createDNSRecord k dm n t c s z) = True"
| "is_create _ = False"

fun is_delete :: "event \<Rightarrow> bool" where
  "is_delete (Call_deleteDNSRecord k dm i z) = True"
| "is_delete _ = False"


text \<open>The line that reports a validation failure.\<close>

fun is_skipping :: "event \<Rightarrow> bool" where
  "is_skipping (SKIPPING_INVALID_HOSTNAME h f a) = True"
| "is_skipping _ = False"

section \<open>The record mutator and the managed subset\<close>

text \<open>
  Modelled from the spec: the Record Mutator and the Zone Snapshot Fetcher
  (\<^verbatim>\<open>createDNSRecord\<close>, \<^verbatim>\<open>deleteDNSRecord\<close> and \<^verbatim>\<open>getZoneRecords\<close> of the cloudflare
  module, which is not among the sources). A create that succeeds adds one record,
  under a record id the zone does not use yet, whose name is the transformed label,
  the subdomain if one is passed, and the domain, and whose content is the address
  (the comment at line 81 of app.py: the mutator is handed the label without prefix
  and postfix). A delete that succeeds removes the record with the given id. A fetch
  returns the zone as it stands.
\<close>

definition fresh_id :: "cf_rec list \<Rightarrow> string" where
  "fresh_id z = replicate (Suc (foldr (\<lambda>r n. max (length (rec_id r)) n) z 0)) (CHR ''n'')"

definition created_name :: "(string \<Rightarrow> string) \<Rightarrow> string \<Rightarrow> string option \<Rightarrow> string \<Rightarrow> string" where
  "created_name alter label sub dm =
     alter label @ (case sub of None \<Rightarrow> [] | Some s \<Rightarrow> if s \<noteq> [] then ''.'' @ s else [])
       @ ''.'' @ dm"

fun zone_apply :: "(string \<Rightarrow> string) \<Rightarrow> cf_rec list \<Rightarrow> event \<Rightarrow> cf_rec list" where
  "zone_apply alter z (Call_createDNSRecord k dm n t c s zid) =
     z @ [\<lparr>rec_id = fresh_id z, name = created_name alter n s dm, content = c, rec_type = t\<rparr>]"
| "zone_apply alter z (Call_deleteDNSRecord k dm i zid) = filter (\<lambda>r. rec_id r \<noteq> i) z"
| "zone_apply alter z e = z"

definition zone_after :: "(string \<Rightarrow> string) \<Rightarrow> cf_rec list \<Rightarrow> event list \<Rightarrow> cf_rec list" where
  "zone_after alter z evs = foldl (zone_apply alter) z evs"

definition provider :: "(string \<Rightarrow> string) \<Rightarrow> cf_rec list \<Rightarrow> event list \<Rightarrow> cf_rec list option" where
  "provider alter z evs = Some (zone_after alter z evs)"

text \<open>
  The managed subset of a zone, in the spec's words: the records whose name ends
  with the managed suffix and whose content is a mesh address, as pairs of
  lower-cased name and content.
\<close>

definition managed_subset :: "collab \<Rightarrow> config \<Rightarrow> cf_rec list \<Rightarrow> (string \<times> string) set" where
  "managed_subset env cfg z =
     set (map (\<lambda>r. (lower (name r), content r))
            (filter (\<lambda>r. endswith (lower (name r)) (expected_ending cfg)
                          \<and> isTailscaleIP env (content r)) z))"

text \<open>The FQDN and IP pairs derivable from a mesh inventory, in the spec's words.\<close>

definition derivable_pairs :: "collab \<Rightarrow> config \<Rightarrow> ts_rec list \<Rightarrow> (string \<times> string) set" where
  "derivable_pairs env cfg ts_records = set (map (\<lambda>r. (tsfqdn env cfg r, address r)) ts_records)"

section \<open>Example collaborators and inputs\<close>

text \<open>
  Stand-ins for the collaborators, used where a property is evaluated on concrete
  input: a label check (letters, digits, hyphen), a mesh range check by prefix, and
  an address parser that tells the two families apart.
\<close>

definition ex_label_ok :: "string \<Rightarrow> bool" where
  "ex_label_ok s =
     (s \<noteq> [] \<and>
      list_all (\<lambda>c. c \<in> set ''abcdefghijklmnopqrstuvwxyzABCDEFGHIJKLMNOPQRSTUVWXYZ0123456789-'') s)"

definition ex_mesh_ip :: "string \<Rightarrow> bool" where
  "ex_mesh_ip s =
     (list_all (\<lambda>c. c \<in> set ''0123456789abcdef.:'') s \<and>
      (take 7 s = ''100.64.'' \<or> take 15 s = ''fd7a:115c:a1e0:''))"

definition ex_ip_address :: "string \<Rightarrow> ip_version option" where
  "ex_ip_address s =
     (if s \<noteq> [] \<and> list_all (\<lambda>c. c \<in> set ''0123456789abcdef.:'') s
      then (if CHR '':'' \<in> set s then Some IPv6 else Some IPv4)
      else None)"

definition ex_cfg :: config where
  "ex_cfg = \<lparr>mode = ''headscale'', cf_key = ''token'', cf_domain = ''example.com'', cf_sub = None\<rparr>"

definition ex_env :: "(string \<Rightarrow> string) \<Rightarrow> cf_rec list \<Rightarrow> ts_rec list \<Rightarrow> collab" where
  "ex_env alter z ts_records =
     \<lparr>getZoneId = Some ''zone-1'', getZoneRecords = provider alter z,
      getTailscaleDevice = None, getHeadscaleDevice = Some ts_records,
      alterHostname = alter, isValidDNSRecord = ex_label_ok,
      isTailscaleIP = ex_mesh_ip, ip_address = ex_ip_address\<rparr>"

definition ex_zone_rec :: "string \<Rightarrow> string \<Rightarrow> string \<Rightarrow> cf_rec" where
  "ex_zone_rec i n c = \<lparr>rec_id = i, name = n, content = c, rec_type = ''A''\<rparr>"

definition ex_device :: "string \<Rightarrow> string \<Rightarrow> ts_rec" where
  "ex_device h a = \<lparr>hostname = h, address = a\<rparr>"

section \<open>Evaluation and basic facts\<close>

lemmas ex_defs = ex_cfg_def ex_env_def ex_zone_rec_def ex_device_def ex_label_ok_def
  ex_mesh_ip_def ex_ip_address_def

lemmas eval_defs = lower_def lower_char_def split_dot_0_def endswith_def sub_part_def
  hostname_part_def tsfqdn_def ts_key_def ts_value_def dict_add_def current_ts_fqdns_ips_def
  dict_has_def any_match_def creation_step_def expected_ending_def cleanup_step_def

lemma cleanup_loop_concat:
  "cleanup_loop env cfg zid d z = concat (map (cleanup_step env cfg zid d) z)"
  by (induction z) simp_all

lemma cleanup_step_cases:
  "cleanup_step env cfg zid d r =
     (if dict_has d (lower (name r) @ ''_'' @ content r) then []
      else if \<not> endswith (lower (name r)) (expected_ending cfg) then []
      else if \<not> isTailscaleIP env (content r) then [SKIP_DELETE (lower (name r)) (content r)]
      else [DELETING_STALE (lower (name r)) (content r),
            Call_deleteDNSRecord (cf_key cfg) (cf_domain cfg) (rec_id r) zid])"
  by (simp add: cleanup_step_def Let_def)

lemma cleanup_step_delete:
  assumes "e \<in> set (cleanup_step env cfg zid d r)" and "is_delete e"
  shows "e = Call_deleteDNSRecord (cf_key cfg) (cf_domain cfg) (rec_id r) zid
         \<and> \<not> dict_has d (lower (name r) @ ''_'' @ content r)
         \<and> endswith (lower (name r)) (expected_ending cfg)
         \<and> isTailscaleIP env (content r)"
  using assms by (auto simp: cleanup_step_cases split: if_splits)

subsection \<open>Strings\<close>

lemma py_split_not_Nil: "py_split sep s \<noteq> []"
  by (induction s) (auto split: list.splits)

lemma split_dot_0_takeWhile: "split_dot_0 s = takeWhile (\<lambda>c. c \<noteq> CHR ''.'') s"
  unfolding split_dot_0_def
  by (induction s) (auto split: list.splits simp: py_split_not_Nil)

lemma endswith_iff: "endswith s e \<longleftrightarrow> (\<exists>p. s = p @ e)"
proof
  assume "endswith s e"
  then have "s = take (length s - length e) s @ e"
    by (metis append_take_drop_id endswith_def)
  then show "\<exists>p. s = p @ e" ..
next
  assume "\<exists>p. s = p @ e"
  then show "endswith s e" by (auto simp: endswith_def)
qed

lemma lower_append: "lower (a @ b) = lower a @ lower b"
  by (simp add: lower_def)

lemma lower_char_idem: "lower_char (lower_char c) = lower_char c"
  by (simp add: lower_char_def)

lemma lower_idem: "lower (lower s) = lower s"
  by (simp add: lower_def lower_char_idem)

lemma lower_dot: "lower (CHR ''.'' # s) = CHR ''.'' # lower s"
  by (simp add: lower_def lower_char_def)

lemma lower_sub_part: "lower (sub_part cfg) = sub_part cfg"
  by (simp add: sub_part_def lower_dot lower_idem split: option.splits) (simp add: lower_def)

lemma lower_expected_ending: "lower (expected_ending cfg) = expected_ending cfg"
  by (simp add: expected_ending_def lower_append lower_sub_part lower_idem lower_dot)

lemma tsfqdn_ending: "tsfqdn env cfg r = hostname_part env r @ expected_ending cfg"
  by (simp add: tsfqdn_def expected_ending_def)

subsection \<open>The dict\<close>

lemma find_append:
  "find P (xs @ ys) = (case find P xs of None \<Rightarrow> find P ys | Some x \<Rightarrow> Some x)"
  by (induction xs) simp_all

lemma find_Some_mem: "find P xs = Some x \<Longrightarrow> x \<in> set xs \<and> P x"
  by (induction xs) (auto split: if_splits)

lemma dict_keys_foldl:
  "fst ` set (foldl (dict_add env cfg) d rs) = fst ` set d \<union> ts_key env cfg ` set rs"
proof (induction rs arbitrary: d)
  case Nil
  show ?case by simp
next
  case (Cons r rs)
  have "fst ` set (dict_add env cfg d r) = {ts_key env cfg r} \<union> fst ` set d"
    by (simp add: dict_add_def dom_update)
  then show ?case by (simp add: Cons.IH Un_assoc Un_commute Un_left_commute)
qed

lemma dict_keys: "fst ` set (current_ts_fqdns_ips env cfg rs) = ts_key env cfg ` set rs"
  by (simp add: current_ts_fqdns_ips_def dict_keys_foldl)

lemma dict_has_iff: "dict_has (current_ts_fqdns_ips env cfg rs) k \<longleftrightarrow> k \<in> ts_key env cfg ` set rs"
  by (simp add: dict_has_def dict_keys)

lemma dict_distinct_foldl:
  "distinct (map fst d) \<Longrightarrow> distinct (map fst (foldl (dict_add env cfg) d rs))"
proof (induction rs arbitrary: d)
  case Nil
  then show ?case by simp
next
  case (Cons r rs)
  from Cons.prems have "distinct (map fst (dict_add env cfg d r))"
    unfolding dict_add_def by (rule distinct_update)
  then show ?case by (simp add: Cons.IH)
qed

lemma dict_distinct: "distinct (map fst (current_ts_fqdns_ips env cfg rs))"
  by (simp add: current_ts_fqdns_ips_def dict_distinct_foldl)

lemma map_of_dict_add:
  "map_of (dict_add env cfg d r) = (map_of d)(ts_key env cfg r \<mapsto> ts_value env cfg r)"
  by (simp add: dict_add_def update_conv')

lemma dict_lookup_foldl:
  "map_of (foldl (dict_add env cfg) d rs) k =
     (case find (\<lambda>r. ts_key env cfg r = k) (rev rs) of
        None \<Rightarrow> map_of d k
      | Some r \<Rightarrow> Some (ts_value env cfg r))"
proof (induction rs arbitrary: d)
  case Nil
  then show ?case by simp
next
  case (Cons x xs)
  show ?case
    by (simp add: Cons.IH find_append map_of_dict_add split: option.splits)
qed

lemma dict_lookup:
  "map_of (current_ts_fqdns_ips env cfg rs) k =
     map_option (ts_value env cfg) (find (\<lambda>r. ts_key env cfg r = k) (rev rs))"
  by (simp add: current_ts_fqdns_ips_def dict_lookup_foldl split: option.splits)

lemma dict_entry:
  assumes "(k, t) \<in> set (current_ts_fqdns_ips env cfg rs)"
  shows "\<exists>r \<in> set rs. ts_key env cfg r = k \<and> t = ts_value env cfg r"
proof -
  from assms have "map_of (current_ts_fqdns_ips env cfg rs) k = Some t"
    by (simp add: dict_distinct)
  then obtain r where f: "find (\<lambda>r. ts_key env cfg r = k) (rev rs) = Some r" and t: "t = ts_value env cfg r"
    by (auto simp: dict_lookup)
  from find_Some_mem [OF f] have "r \<in> set rs" and "ts_key env cfg r = k" by simp_all
  with t show ?thesis by blast
qed

lemma count_key_one:
  "distinct (map fst d) \<Longrightarrow> k \<in> fst ` set d \<Longrightarrow> length (filter (\<lambda>p. fst p = k) d) = 1"
proof (induction d)
  case Nil
  then show ?case by simp
next
  case (Cons p d)
  show ?case
  proof (cases "fst p = k")
    case True
    with Cons.prems have "k \<notin> fst ` set d" by simp
    then have "\<forall>q \<in> set d. fst q \<noteq> k" by force
    then have "filter (\<lambda>p. fst p = k) d = []"
      by (simp add: filter_empty_conv)
    with True show ?thesis by simp
  next
    case False
    with Cons show ?thesis by simp
  qed
qed


lemma endswith_tsfqdn: "endswith (tsfqdn env cfg r) (expected_ending cfg)"
  by (auto simp: endswith_iff tsfqdn_ending)

lemma dict_entry_shape:
  assumes "(k, t) \<in> set (current_ts_fqdns_ips env cfg rs)"
  shows "k = fqdn t @ ''_'' @ ts_address t \<and> endswith (fqdn t) (expected_ending cfg)"
proof -
  from dict_entry [OF assms] obtain r where "ts_key env cfg r = k" and "t = ts_value env cfg r"
    by blast
  then show ?thesis
    by (simp add: ts_key_def ts_value_def endswith_tsfqdn)
qed

lemma takeWhile_until_sep:
  "sep \<notin> set xs \<Longrightarrow> takeWhile (\<lambda>x. x \<noteq> sep) (xs @ sep # ys) = xs"
  by (induction xs) auto

lemma after_last_sep:
  assumes "sep \<notin> set c"
  shows "rev (takeWhile (\<lambda>x. x \<noteq> sep) (rev (f @ sep # c))) = c"
proof -
  have "takeWhile (\<lambda>x. x \<noteq> sep) (rev c @ sep # rev f) = rev c"
    using assms by (simp add: takeWhile_until_sep)
  then show ?thesis by simp
qed

lemma key_split_unique:
  assumes eq: "f @ ''_'' @ c = f' @ ''_'' @ c'"
      and "CHR ''_'' \<notin> set c" and "CHR ''_'' \<notin> set c'"
  shows "f = f' \<and> c = c'"
proof -
  have same: "f @ CHR ''_'' # c = f' @ CHR ''_'' # c'"
    using eq by simp
  have "rev (takeWhile (\<lambda>x. x \<noteq> CHR ''_'') (rev (f @ CHR ''_'' # c))) = c"
    by (rule after_last_sep [OF assms(2)])
  then have "rev (takeWhile (\<lambda>x. x \<noteq> CHR ''_'') (rev (f' @ CHR ''_'' # c'))) = c"
    by (simp only: same)
  moreover have "rev (takeWhile (\<lambda>x. x \<noteq> CHR ''_'') (rev (f' @ CHR ''_'' # c'))) = c'"
    by (rule after_last_sep [OF assms(3)])
  ultimately have "c = c'" by simp
  with eq show ?thesis by simp
qed

subsection \<open>The creation loop\<close>

lemma creation_step_cases:
  "creation_step env cfg zid cf t =
     (if any_match cf (fqdn t) (ts_address t) then ([UP_TO_DATE (fqdn t) (ts_address t)], None)
      else if ip_address env (ts_address t) = None then ([], Some ValueError)
      else if isValidDNSRecord env (original_hostname t)
      then ([ADDING (fqdn t) (ts_address t),
             Call_createDNSRecord (cf_key cfg) (cf_domain cfg)
               (lower (split_dot_0 (original_hostname t)))
               (records_typemap (the (ip_address env (ts_address t)))) (ts_address t)
               (cf_sub cfg) zid], None)
      else ([SKIPPING_INVALID_HOSTNAME (original_hostname t) (fqdn t) (ts_address t)], None))"
  by (auto simp: creation_step_def split: option.splits)

lemma any_match_iff:
  "any_match cf f a \<longleftrightarrow> (\<exists>r \<in> set cf. lower (name r) = f \<and> content r = a)"
  by (simp add: any_match_def list_ex_iff)

lemma creation_loop_events:
  "e \<in> set (fst (creation_loop env cfg zid cf d)) \<Longrightarrow>
     \<exists>(k, t) \<in> set d. e \<in> set (fst (creation_step env cfg zid cf t))"
proof (induction d)
  case Nil
  then show ?case by simp
next
  case (Cons p d)
  obtain k t where p: "p = (k, t)" by (cases p)
  obtain evs r where st: "creation_step env cfg zid cf t = (evs, r)"
    by (cases "creation_step env cfg zid cf t")
  obtain evs' r' where lp: "creation_loop env cfg zid cf d = (evs', r')"
    by (cases "creation_loop env cfg zid cf d")
  from Cons.prems have "e \<in> set evs \<or> e \<in> set evs'"
    by (cases r) (auto simp: p st lp)
  then show ?case
  proof
    assume "e \<in> set evs"
    then show ?thesis by (simp add: p st)
  next
    assume "e \<in> set evs'"
    with Cons.IH lp show ?thesis by auto
  qed
qed

lemma creation_loop_ok:
  "(\<forall>(k, t) \<in> set d. snd (creation_step env cfg zid cf t) = None) \<Longrightarrow>
   creation_loop env cfg zid cf d
     = (concat (map (\<lambda>(k, t). fst (creation_step env cfg zid cf t)) d), None)"
proof (induction d)
  case Nil
  then show ?case by simp
next
  case (Cons p d)
  obtain k t where p: "p = (k, t)" by (cases p)
  obtain evs where st: "creation_step env cfg zid cf t = (evs, None)"
    using Cons.prems by (cases "creation_step env cfg zid cf t") (auto simp: p)
  from Cons have "creation_loop env cfg zid cf d
     = (concat (map (\<lambda>(k, t). fst (creation_step env cfg zid cf t)) d), None)"
    by simp
  then show ?case by (simp add: p st)
qed

lemma creation_loop_returns:
  "creation_loop env cfg zid cf d = (evs, None) \<Longrightarrow>
   (\<forall>(k, t) \<in> set d. snd (creation_step env cfg zid cf t) = None)"
proof (induction d arbitrary: evs)
  case Nil
  then show ?case by simp
next
  case (Cons p d)
  obtain k t where p: "p = (k, t)" by (cases p)
  obtain evs1 r where st: "creation_step env cfg zid cf t = (evs1, r)"
    by (cases "creation_step env cfg zid cf t")
  obtain evs' r' where lp: "creation_loop env cfg zid cf d = (evs', r')"
    by (cases "creation_loop env cfg zid cf d")
  from Cons.prems have r: "r = None" and r': "r' = None"
    by (cases r; simp add: p st lp)+
  from Cons.IH [of evs'] lp r' have "\<forall>(k, t) \<in> set d. snd (creation_step env cfg zid cf t) = None"
    by simp
  with r st show ?case by (simp add: p)
qed

lemma dict_addresses_parse:
  assumes "\<forall>dev \<in> set ts_records. ip_address env (address dev) \<noteq> None"
      and "(k, t) \<in> set (current_ts_fqdns_ips env cfg ts_records)"
  shows "ip_address env (ts_address t) \<noteq> None"
proof -
  from dict_entry [OF assms(2)] obtain r where "r \<in> set ts_records" and "t = ts_value env cfg r"
    by blast
  with assms(1) show ?thesis by (simp add: ts_value_def)
qed

subsection \<open>The zone under the record mutator\<close>

lemma zone_after_Nil: "zone_after alter z [] = z"
  by (simp add: zone_after_def)

lemma zone_after_Cons: "zone_after alter z (e # evs) = zone_after alter (zone_apply alter z e) evs"
  by (simp add: zone_after_def)

lemma zone_after_append:
  "zone_after alter z (evs @ evs') = zone_after alter (zone_after alter z evs) evs'"
  by (simp add: zone_after_def)

lemma zone_apply_keeps:
  "\<not> is_delete e \<Longrightarrow> set z \<subseteq> set (zone_apply alter z e)"
  by (cases e) auto

lemma zone_after_keeps:
  "\<forall>e \<in> set evs. \<not> is_delete e \<Longrightarrow> set z \<subseteq> set (zone_after alter z evs)"
proof (induction evs arbitrary: z)
  case Nil
  then show ?case by (simp add: zone_after_Nil)
next
  case (Cons e evs)
  from Cons.prems have "set z \<subseteq> set (zone_apply alter z e)"
    by (simp add: zone_apply_keeps)
  moreover from Cons have "set (zone_apply alter z e) \<subseteq> set (zone_after alter (zone_apply alter z e) evs)"
    by simp
  ultimately show ?case by (simp add: zone_after_Cons)
qed

lemma zone_apply_origin:
  assumes "r \<in> set (zone_apply alter z e)"
  shows "r \<in> set z \<or>
         (\<exists>k dm n ty c s zid. e = Call_createDNSRecord k dm n ty c s zid
            \<and> name r = created_name alter n s dm \<and> content r = c)"
  using assms by (cases e) auto

lemma zone_after_origin:
  "r \<in> set (zone_after alter z evs) \<Longrightarrow>
     r \<in> set z \<or>
     (\<exists>k dm n ty c s zid. Call_createDNSRecord k dm n ty c s zid \<in> set evs
        \<and> name r = created_name alter n s dm \<and> content r = c)"
proof (induction evs arbitrary: z)
  case Nil
  then show ?case by (simp add: zone_after_Nil)
next
  case (Cons e evs)
  from Cons.prems have "r \<in> set (zone_after alter (zone_apply alter z e) evs)"
    by (simp add: zone_after_Cons)
  from Cons.IH [OF this] show ?case
  proof
    assume "r \<in> set (zone_apply alter z e)"
    from zone_apply_origin [OF this] show ?thesis
    proof
      assume "r \<in> set z"
      then show ?thesis ..
    next
      assume "\<exists>k dm n ty c s zid. e = Call_createDNSRecord k dm n ty c s zid
            \<and> name r = created_name alter n s dm \<and> content r = c"
      then obtain k dm n ty c s zid where "e = Call_createDNSRecord k dm n ty c s zid"
        and "name r = created_name alter n s dm" and "content r = c"
        by blast
      then have "Call_createDNSRecord k dm n ty c s zid \<in> set (e # evs)
        \<and> name r = created_name alter n s dm \<and> content r = c"
        by simp
      then show ?thesis by blast
    qed
  next
    assume "\<exists>k dm n ty c s zid. Call_createDNSRecord k dm n ty c s zid \<in> set evs
        \<and> name r = created_name alter n s dm \<and> content r = c"
    then obtain k dm n ty c s zid where "Call_createDNSRecord k dm n ty c s zid \<in> set evs"
        and "name r = created_name alter n s dm" and "content r = c"
      by blast
    then have "Call_createDNSRecord k dm n ty c s zid \<in> set (e # evs)
        \<and> name r = created_name alter n s dm \<and> content r = c"
      by simp
    then show ?thesis by blast
  qed
qed

lemma zone_after_created:
  assumes "Call_createDNSRecord k dm n ty c s zid \<in> set evs"
      and "\<forall>e \<in> set evs. \<not> is_delete e"
  shows "\<exists>r \<in> set (zone_after alter z evs). name r = created_name alter n s dm \<and> content r = c"
  using assms
proof (induction evs arbitrary: z)
  case Nil
  then show ?case by simp
next
  case (Cons e evs)
  from Cons.prems(2) have nodel: "\<forall>e \<in> set evs. \<not> is_delete e" by simp
  show ?case
  proof (cases "e = Call_createDNSRecord k dm n ty c s zid")
    case True
    then have "\<exists>r \<in> set (zone_apply alter z e). name r = created_name alter n s dm \<and> content r = c"
      by simp
    with zone_after_keeps [OF nodel, of "zone_apply alter z e" alter]
    show ?thesis by (auto simp: zone_after_Cons)
  next
    case False
    with Cons.prems(1) have "Call_createDNSRecord k dm n ty c s zid \<in> set evs" by simp
    from Cons.IH [OF this nodel] show ?thesis by (simp add: zone_after_Cons)
  qed
qed

lemma fresh_id_bound:
  "r \<in> set z \<Longrightarrow> length (rec_id r) \<le> foldr (\<lambda>r n. max (length (rec_id r)) n) z 0"
  by (induction z) auto

lemma fresh_id_new: "fresh_id z \<notin> rec_id ` set z"
proof
  assume "fresh_id z \<in> rec_id ` set z"
  then obtain r where "r \<in> set z" and "rec_id r = fresh_id z" by auto
  with fresh_id_bound [of r z] show False
    by (simp add: fresh_id_def)
qed

lemma zone_apply_distinct:
  "distinct (map rec_id z) \<Longrightarrow> distinct (map rec_id (zone_apply alter z e))"
  using fresh_id_new [of z]
  by (cases e) (auto simp: distinct_map_filter)

lemma zone_after_distinct:
  "distinct (map rec_id z) \<Longrightarrow> distinct (map rec_id (zone_after alter z evs))"
  by (induction evs arbitrary: z) (simp_all add: zone_after_Nil zone_after_Cons zone_apply_distinct)

subsection \<open>The zone after the creation phase\<close>

lemma creation_step_no_delete:
  "e \<in> set (fst (creation_step env cfg zid cf t)) \<Longrightarrow> \<not> is_delete e"
  by (auto simp: creation_step_cases split: if_splits)

lemma creation_loop_no_delete:
  "e \<in> set (fst (creation_loop env cfg zid cf d)) \<Longrightarrow> \<not> is_delete e"
  using creation_loop_events creation_step_no_delete by blast

lemma creation_step_create:
  assumes "Call_createDNSRecord k dm n ty c s z \<in> set (fst (creation_step env cfg zid cf t))"
  shows "\<not> any_match cf (fqdn t) (ts_address t) \<and> isValidDNSRecord env (original_hostname t)
         \<and> dm = cf_domain cfg \<and> n = lower (split_dot_0 (original_hostname t))
         \<and> c = ts_address t \<and> s = cf_sub cfg"
  using assms by (auto simp: creation_step_cases split: if_splits)

lemma lower_Nil: "lower [] = []"
  by (simp add: lower_def)

lemma created_name_lower:
  assumes "lower (alter n) = alter n"
  shows "lower (created_name alter n (cf_sub cfg) (cf_domain cfg))
           = alter n @ sub_part cfg @ ''.'' @ lower (cf_domain cfg)"
  using assms
  by (simp add: created_name_def sub_part_def lower_append lower_dot lower_Nil split: option.splits)

lemma dict_entry_fqdn:
  assumes "(k, t) \<in> set (current_ts_fqdns_ips env cfg rs)"
  shows "fqdn t = alterHostname env (lower (split_dot_0 (original_hostname t)))
                    @ sub_part cfg @ ''.'' @ lower (cf_domain cfg)"
proof -
  from dict_entry [OF assms] obtain r where "t = ts_value env cfg r" by blast
  then show ?thesis by (simp add: ts_value_def tsfqdn_def hostname_part_def)
qed

lemma dict_same_pair:
  assumes "(k, t) \<in> set (current_ts_fqdns_ips env cfg rs)"
      and "(k', t') \<in> set (current_ts_fqdns_ips env cfg rs)"
      and "fqdn t = fqdn t'" and "ts_address t = ts_address t'"
  shows "t = t'"
proof -
  from dict_entry_shape [OF assms(1)] dict_entry_shape [OF assms(2)] assms(3,4)
  have "k = k'" by simp
  with assms(1,2) dict_distinct [of env cfg rs] show ?thesis
    by (metis eq_key_imp_eq_value)
qed

lemma match_after_creation:
  assumes lc: "\<forall>l. lower (alterHostname env (lower l)) = alterHostname env (lower l)"
      and d: "d = current_ts_fqdns_ips env cfg ts_records"
      and run: "creation_loop env cfg zid cf d = (evs, None)"
      and t: "(k, t) \<in> set d"
  shows "any_match (zone_after (alterHostname env) cf evs) (fqdn t) (ts_address t)
         \<longleftrightarrow> any_match cf (fqdn t) (ts_address t) \<or> isValidDNSRecord env (original_hostname t)"
proof
  have nodel: "\<forall>e \<in> set evs. \<not> is_delete e"
    using creation_loop_no_delete [of _ env cfg zid cf d] run by simp
  have ok: "\<forall>(k, t) \<in> set d. snd (creation_step env cfg zid cf t) = None"
    using creation_loop_returns [OF run] .
  have evs: "evs = concat (map (\<lambda>(k, t). fst (creation_step env cfg zid cf t)) d)"
    using creation_loop_ok [OF ok] run by simp
  have name_of: "\<And>k' t'. (k', t') \<in> set d \<Longrightarrow>
      lower (created_name (alterHostname env) (lower (split_dot_0 (original_hostname t')))
               (cf_sub cfg) (cf_domain cfg)) = fqdn t'"
    using lc d by (simp add: created_name_lower dict_entry_fqdn)
  {
    assume "any_match cf (fqdn t) (ts_address t) \<or> isValidDNSRecord env (original_hostname t)"
    then show "any_match (zone_after (alterHostname env) cf evs) (fqdn t) (ts_address t)"
    proof (cases "any_match cf (fqdn t) (ts_address t)")
      case True
      with zone_after_keeps [OF nodel, of cf "alterHostname env"] show ?thesis
        by (auto simp: any_match_iff)
    next
      case False
      assume "any_match cf (fqdn t) (ts_address t) \<or> isValidDNSRecord env (original_hostname t)"
      with False have valid: "isValidDNSRecord env (original_hostname t)" by simp
      from ok t have "snd (creation_step env cfg zid cf t) = None" by auto
      with False have parse: "ip_address env (ts_address t) \<noteq> None"
        by (auto simp: creation_step_cases split: if_splits)
      with False valid have "Call_createDNSRecord (cf_key cfg) (cf_domain cfg)
               (lower (split_dot_0 (original_hostname t)))
               (records_typemap (the (ip_address env (ts_address t)))) (ts_address t)
               (cf_sub cfg) zid \<in> set (fst (creation_step env cfg zid cf t))"
        by (simp add: creation_step_cases)
      with t have "Call_createDNSRecord (cf_key cfg) (cf_domain cfg)
               (lower (split_dot_0 (original_hostname t)))
               (records_typemap (the (ip_address env (ts_address t)))) (ts_address t)
               (cf_sub cfg) zid \<in> set evs"
        unfolding evs by force
      from zone_after_created [OF this nodel, of "alterHostname env" cf]
      obtain r where "r \<in> set (zone_after (alterHostname env) cf evs)"
        and "name r = created_name (alterHostname env) (lower (split_dot_0 (original_hostname t)))
               (cf_sub cfg) (cf_domain cfg)"
        and "content r = ts_address t"
        by blast
      with name_of [OF t] have "r \<in> set (zone_after (alterHostname env) cf evs)
          \<and> lower (name r) = fqdn t \<and> content r = ts_address t"
        by simp
      then show ?thesis
        unfolding any_match_iff by blast
    qed
  }
  {
    assume "any_match (zone_after (alterHostname env) cf evs) (fqdn t) (ts_address t)"
    then obtain r where r: "r \<in> set (zone_after (alterHostname env) cf evs)"
      and nm: "lower (name r) = fqdn t" and ct: "content r = ts_address t"
      by (auto simp: any_match_iff)
    from zone_after_origin [OF r]
    show "any_match cf (fqdn t) (ts_address t) \<or> isValidDNSRecord env (original_hostname t)"
    proof
      assume "r \<in> set cf"
      with nm ct show ?thesis by (auto simp: any_match_iff)
    next
      assume "\<exists>k dm n ty c s zid. Call_createDNSRecord k dm n ty c s zid \<in> set evs
        \<and> name r = created_name (alterHostname env) n s dm \<and> content r = c"
      then obtain k1 dm n ty c s z1 where ev: "Call_createDNSRecord k1 dm n ty c s z1 \<in> set evs"
        and nm': "name r = created_name (alterHostname env) n s dm" and ct': "content r = c"
        by blast
      from ev run have "Call_createDNSRecord k1 dm n ty c s z1 \<in> set (fst (creation_loop env cfg zid cf d))"
        by simp
      from creation_loop_events [OF this]
      obtain k' t' where t': "(k', t') \<in> set d"
        and "Call_createDNSRecord k1 dm n ty c s z1 \<in> set (fst (creation_step env cfg zid cf t'))"
        by blast
      from creation_step_create [OF this(2)]
      have valid': "isValidDNSRecord env (original_hostname t')"
        and args: "dm = cf_domain cfg" "n = lower (split_dot_0 (original_hostname t'))"
          "c = ts_address t'" "s = cf_sub cfg"
        by simp_all
      from name_of [OF t'] nm' args have "lower (name r) = fqdn t'" by simp
      with nm have "fqdn t = fqdn t'" by simp
      moreover from ct ct' args have "ts_address t = ts_address t'" by simp
      ultimately have "t = t'"
        using dict_same_pair t t' d by blast
      with valid' show ?thesis by simp
    qed
  }
qed

subsection \<open>The zone after the cleanup phase\<close>

lemma cleanup_step_zone:
  "zone_after alter z0 (cleanup_step env cfg zid d r) =
     (if \<not> dict_has d (lower (name r) @ ''_'' @ content r)
         \<and> endswith (lower (name r)) (expected_ending cfg) \<and> isTailscaleIP env (content r)
      then filter (\<lambda>x. rec_id x \<noteq> rec_id r) z0 else z0)"
  by (simp add: cleanup_step_cases zone_after_def)

lemma cleanup_loop_zone:
  "zone_after alter z0 (cleanup_loop env cfg zid d z) =
     filter (\<lambda>x. rec_id x \<notin> rec_id ` {r \<in> set z.
        \<not> dict_has d (lower (name r) @ ''_'' @ content r)
        \<and> endswith (lower (name r)) (expected_ending cfg) \<and> isTailscaleIP env (content r)}) z0"
proof (induction z arbitrary: z0)
  case Nil
  then show ?case by (simp add: zone_after_Nil)
next
  case (Cons r z)
  show ?case
    by (auto simp: zone_after_append cleanup_step_zone Cons.IH intro!: filter_cong)
qed

lemma cleanup_loop_zone_distinct:
  assumes "distinct (map rec_id z)"
  shows "zone_after alter z (cleanup_loop env cfg zid d z) =
     filter (\<lambda>r. dict_has d (lower (name r) @ ''_'' @ content r)
        \<or> \<not> endswith (lower (name r)) (expected_ending cfg) \<or> \<not> isTailscaleIP env (content r)) z"
proof -
  from assms have inj: "inj_on rec_id (set z)"
    by (simp add: distinct_map)
  show ?thesis
    unfolding cleanup_loop_zone
  proof (rule filter_cong [OF refl])
    fix x
    assume x: "x \<in> set z"
    show "(rec_id x \<notin> rec_id ` {r \<in> set z.
        \<not> dict_has d (lower (name r) @ ''_'' @ content r)
        \<and> endswith (lower (name r)) (expected_ending cfg) \<and> isTailscaleIP env (content r)})
      = (dict_has d (lower (name x) @ ''_'' @ content x)
        \<or> \<not> endswith (lower (name x)) (expected_ending cfg) \<or> \<not> isTailscaleIP env (content x))"
    proof
      assume "rec_id x \<notin> rec_id ` {r \<in> set z.
        \<not> dict_has d (lower (name r) @ ''_'' @ content r)
        \<and> endswith (lower (name r)) (expected_ending cfg) \<and> isTailscaleIP env (content r)}"
      with x show "dict_has d (lower (name x) @ ''_'' @ content x)
        \<or> \<not> endswith (lower (name x)) (expected_ending cfg) \<or> \<not> isTailscaleIP env (content x)"
        by blast
    next
      assume keep: "dict_has d (lower (name x) @ ''_'' @ content x)
        \<or> \<not> endswith (lower (name x)) (expected_ending cfg) \<or> \<not> isTailscaleIP env (content x)"
      show "rec_id x \<notin> rec_id ` {r \<in> set z.
        \<not> dict_has d (lower (name r) @ ''_'' @ content r)
        \<and> endswith (lower (name r)) (expected_ending cfg) \<and> isTailscaleIP env (content r)}"
      proof
        assume "rec_id x \<in> rec_id ` {r \<in> set z.
          \<not> dict_has d (lower (name r) @ ''_'' @ content r)
          \<and> endswith (lower (name r)) (expected_ending cfg) \<and> isTailscaleIP env (content r)}"
        then obtain r where r: "r \<in> set z" and "rec_id x = rec_id r"
          and st: "\<not> dict_has d (lower (name r) @ ''_'' @ content r)
            \<and> endswith (lower (name r)) (expected_ending cfg) \<and> isTailscaleIP env (content r)"
          by blast
        with inj x have "x = r" by (simp add: inj_on_def)
        with st keep show False by blast
      qed
    qed
  qed
qed

subsection \<open>One whole cycle\<close>

lemma cycle_completed:
  assumes "perform_sync_cycle env cfg = (evs, Completed)"
      and "fetch_ts_records env cfg = Some (Some ts_records)"
  shows "\<exists>zid z0 evs1 z1. getZoneId env = Some zid \<and> getZoneRecords env [] = Some z0
           \<and> creation_loop env cfg zid z0 (current_ts_fqdns_ips env cfg ts_records) = (evs1, None)
           \<and> getZoneRecords env evs1 = Some z1
           \<and> evs = evs1 @ cleanup_loop env cfg zid (current_ts_fqdns_ips env cfg ts_records) z1"
  using assms
  by (auto simp: perform_sync_cycle_def Let_def except_clauses_def
           split: option.splits if_splits prod.splits)

lemma managed_subset_iff:
  "(f, a) \<in> managed_subset env cfg z \<longleftrightarrow>
     (\<exists>r \<in> set z. lower (name r) = f \<and> content r = a
        \<and> endswith f (expected_ending cfg) \<and> isTailscaleIP env a)"
  by (auto simp: managed_subset_def)

lemma dict_no_underscore:
  assumes "\<forall>dev \<in> set ts_records. CHR ''_'' \<notin> set (address dev)"
      and "(k, t) \<in> set (current_ts_fqdns_ips env cfg ts_records)"
  shows "CHR ''_'' \<notin> set (ts_address t)"
proof -
  from dict_entry [OF assms(2)] obtain r where "r \<in> set ts_records" and "t = ts_value env cfg r"
    by blast
  with assms(1) show ?thesis by (simp add: ts_value_def)
qed

lemma converge_phases:
  assumes lc: "\<forall>l. lower (alterHostname env (lower l)) = alterHostname env (lower l)"
      and d: "d = current_ts_fqdns_ips env cfg ts_records"
      and run: "creation_loop env cfg zid z d = (evs1, None)"
      and dist: "distinct (map rec_id z)"
      and us1: "\<forall>dev \<in> set ts_records. CHR ''_'' \<notin> set (address dev)"
      and us2: "\<forall>c. isTailscaleIP env c \<longrightarrow> CHR ''_'' \<notin> set c"
      and z1: "z1 = zone_after (alterHostname env) z evs1"
  shows "managed_subset env cfg (zone_after (alterHostname env) z1 (cleanup_loop env cfg zid d z1))
         = {(fqdn t, ts_address t) | k t. (k, t) \<in> set d \<and> isTailscaleIP env (ts_address t)
              \<and> (any_match z (fqdn t) (ts_address t) \<or> isValidDNSRecord env (original_hostname t))}"
    (is "?L = ?R")
proof -
  have dist1: "distinct (map rec_id z1)"
    unfolding z1 using dist by (rule zone_after_distinct)
  have after: "zone_after (alterHostname env) z1 (cleanup_loop env cfg zid d z1)
      = filter (\<lambda>r. dict_has d (lower (name r) @ ''_'' @ content r)
          \<or> \<not> endswith (lower (name r)) (expected_ending cfg) \<or> \<not> isTailscaleIP env (content r)) z1"
    using dist1 by (rule cleanup_loop_zone_distinct)
  have L: "(f, a) \<in> ?L \<longleftrightarrow>
      (\<exists>r \<in> set z1. lower (name r) = f \<and> content r = a \<and> endswith f (expected_ending cfg)
         \<and> isTailscaleIP env a \<and> dict_has d (f @ ''_'' @ a))" for f a
    unfolding after managed_subset_iff by auto
  have "(f, a) \<in> ?L \<longleftrightarrow> (f, a) \<in> ?R" for f a
  proof
    assume "(f, a) \<in> ?L"
    then obtain r where r: "r \<in> set z1" and nm: "lower (name r) = f" and ct: "content r = a"
      and mesh: "isTailscaleIP env a" and has: "dict_has d (f @ ''_'' @ a)"
      unfolding L by blast
    from has obtain k t where t: "(k, t) \<in> set d" and k: "k = f @ ''_'' @ a"
      by (auto simp: dict_has_def)
    from dict_entry_shape [of k t env cfg ts_records] t d
    have "f @ ''_'' @ a = fqdn t @ ''_'' @ ts_address t"
      using k by simp
    moreover from us2 mesh have "CHR ''_'' \<notin> set a" by blast
    moreover from dict_no_underscore [OF us1] t d have "CHR ''_'' \<notin> set (ts_address t)" by blast
    ultimately have eq: "f = fqdn t \<and> a = ts_address t"
      by (rule key_split_unique)
    with r nm ct have "any_match z1 (fqdn t) (ts_address t)"
      unfolding any_match_iff by blast
    with match_after_creation [OF lc d run t] z1
    have "any_match z (fqdn t) (ts_address t) \<or> isValidDNSRecord env (original_hostname t)"
      by simp
    with t eq mesh show "(f, a) \<in> ?R" by auto
  next
    assume "(f, a) \<in> ?R"
    then obtain k t where t: "(k, t) \<in> set d" and eq: "f = fqdn t" "a = ts_address t"
      and mesh: "isTailscaleIP env (ts_address t)"
      and ok: "any_match z (fqdn t) (ts_address t) \<or> isValidDNSRecord env (original_hostname t)"
      by blast
    from match_after_creation [OF lc d run t] ok z1
    have "any_match z1 (fqdn t) (ts_address t)" by simp
    then obtain r where r: "r \<in> set z1" and nm: "lower (name r) = f" and ct: "content r = a"
      unfolding any_match_iff eq by blast
    from dict_entry_shape [of k t env cfg ts_records] t d
    have k: "k = f @ ''_'' @ a" and e: "endswith f (expected_ending cfg)"
      by (simp_all add: eq)
    from t k have has: "dict_has d (f @ ''_'' @ a)"
      unfolding dict_has_def by force
    have "\<exists>r \<in> set z1. lower (name r) = f \<and> content r = a \<and> endswith f (expected_ending cfg)
         \<and> isTailscaleIP env a \<and> dict_has d (f @ ''_'' @ a)"
    proof (rule bexI [of _ r])
      show "lower (name r) = f \<and> content r = a \<and> endswith f (expected_ending cfg)
         \<and> isTailscaleIP env a \<and> dict_has d (f @ ''_'' @ a)"
        using nm ct e has mesh eq by simp
      show "r \<in> set z1" by (rule r)
    qed
    then show "(f, a) \<in> ?L"
      unfolding L .
  qed
  then show ?thesis by auto
qed

lemma ex_mesh_ip_no_underscore: "ex_mesh_ip c \<Longrightarrow> CHR ''_'' \<notin> set c"
  by (auto simp: ex_mesh_ip_def list_all_iff)

lemma pairs_as_list:
  "{(fqdn t, ts_address t) | k t. (k, t) \<in> set d \<and> P t}
     = set (map (\<lambda>p. (fqdn (snd p), ts_address (snd p))) (filter (\<lambda>p. P (snd p)) d))"
  by force

lemma cycle_run:
  assumes "getZoneId env = Some zid" and "zid \<noteq> []"
      and "getZoneRecords env [] = Some z0"
      and "fetch_ts_records env cfg = Some (Some ts_records)"
      and "creation_loop env cfg zid z0 (current_ts_fqdns_ips env cfg ts_records) = (evs1, None)"
      and "getZoneRecords env evs1 = Some z1"
  shows "perform_sync_cycle env cfg
           = (evs1 @ cleanup_loop env cfg zid (current_ts_fqdns_ips env cfg ts_records) z1, Completed)"
  using assms by (simp add: perform_sync_cycle_def)

subsection \<open>The last writer of a key\<close>



lemma dict_last_writer:
  assumes "\<forall>x \<in> set post. ts_key env cfg x \<noteq> ts_key env cfg dev"
  shows "(ts_key env cfg dev, ts_value env cfg dev) \<in> set (current_ts_fqdns_ips env cfg (pre @ dev # post))"
proof -
  have "find (\<lambda>r. ts_key env cfg r = ts_key env cfg dev) (rev post) = None"
    using assms by (simp add: find_None_iff)
  then have "map_of (current_ts_fqdns_ips env cfg (pre @ dev # post)) (ts_key env cfg dev)
      = Some (ts_value env cfg dev)"
    by (simp add: dict_lookup find_append)
  then show ?thesis by (rule map_of_SomeD)
qed


lemma cleanup_loop_append:
  "cleanup_loop env cfg zid d (xs @ ys) = cleanup_loop env cfg zid d xs @ cleanup_loop env cfg zid d ys"
  by (simp add: cleanup_loop_concat)

subsection \<open>Validation failures\<close>


lemma creation_step_skipping:
  assumes "snd (creation_step env cfg zid cf t) = None"
      and "\<forall>e \<in> set (fst (creation_step env cfg zid cf t)). \<not> is_skipping e"
  shows "any_match cf (fqdn t) (ts_address t) \<or> isValidDNSRecord env (original_hostname t)"
  using assms by (auto simp: creation_step_cases split: if_splits)

section \<open>Cleanup phase: scope safety\<close>

text \<open>
  C2. Whatever the zone snapshot and the DesiredSet, a zone record whose lower-cased
  name does not end with the managed suffix gets no event from the cleanup loop, so
  no delete call; and every delete call the loop issues carries the id of a record of
  the snapshot whose lower-cased name ends with the managed suffix.
\<close>

theorem scope_safety:
  "(\<not> endswith (lower (name r)) (expected_ending cfg) \<longrightarrow> cleanup_step env cfg zid d r = [])
   \<and> (\<forall>e \<in> set (cleanup_loop env cfg zid d z). is_delete e \<longrightarrow>
         (\<exists>r' \<in> set z. e = Call_deleteDNSRecord (cf_key cfg) (cf_domain cfg) (rec_id r') zid
                        \<and> endswith (lower (name r')) (expected_ending cfg)))"
proof (intro conjI impI ballI)
  assume "\<not> endswith (lower (name r)) (expected_ending cfg)"
  then show "cleanup_step env cfg zid d r = []"
    by (simp add: cleanup_step_cases)
next
  fix e
  assume "e \<in> set (cleanup_loop env cfg zid d z)" and del: "is_delete e"
  then obtain r' where "r' \<in> set z" and "e \<in> set (cleanup_step env cfg zid d r')"
    by (auto simp: cleanup_loop_concat)
  with del show "\<exists>r' \<in> set z. e = Call_deleteDNSRecord (cf_key cfg) (cf_domain cfg) (rec_id r') zid
                        \<and> endswith (lower (name r')) (expected_ending cfg)"
    using cleanup_step_delete by blast
qed

text \<open>
  On a snapshot with one record outside the suffix and one stale record inside it,
  both holding a mesh address, only the second is deleted.
\<close>

theorem scope_safety_witness:
  "\<not> endswith (lower (name (ex_zone_rec ''r1'' ''old.other.org'' ''100.64.0.9''))) (expected_ending ex_cfg)
   \<and> cleanup_step (ex_env id [] []) ex_cfg ''zone-1'' []
        (ex_zone_rec ''r1'' ''old.other.org'' ''100.64.0.9'') = []
   \<and> cleanup_loop (ex_env id [] []) ex_cfg ''zone-1'' []
        [ex_zone_rec ''r1'' ''old.other.org'' ''100.64.0.9'',
         ex_zone_rec ''r2'' ''Old.Example.com'' ''100.64.0.9'']
      = [DELETING_STALE ''old.example.com'' ''100.64.0.9'',
         Call_deleteDNSRecord ''token'' ''example.com'' ''r2'' ''zone-1'']"
  using scope_safety [of "ex_zone_rec ''r1'' ''old.other.org'' ''100.64.0.9''" ex_cfg
      "ex_env id [] []" "''zone-1''" "[]" "[]"]
  by (simp add: ex_defs eval_defs)

section \<open>Cycle controller: the mode dispatch\<close>

text \<open>
  C9. When the configured mode is neither tailscale nor headscale, the cycle ends
  with an early return and its events hold no create call and no delete call,
  whatever the collaborators return.
\<close>

theorem invalid_mode_aborts:
  assumes "mode cfg \<noteq> ''tailscale''" and "mode cfg \<noteq> ''headscale''"
  shows "snd (perform_sync_cycle env cfg) = Aborted
         \<and> filter (\<lambda>e. is_create e \<or> is_delete e) (fst (perform_sync_cycle env cfg)) = []"
  using assms
  by (simp add: perform_sync_cycle_def fetch_ts_records_def split: option.splits)

theorem invalid_mode_aborts_witness:
  "mode (ex_cfg\<lparr>mode := ''wireguard''\<rparr>) \<noteq> ''tailscale''
   \<and> mode (ex_cfg\<lparr>mode := ''wireguard''\<rparr>) \<noteq> ''headscale''
   \<and> perform_sync_cycle
        (ex_env id [ex_zone_rec ''r2'' ''old.example.com'' ''100.64.0.9'']
           [ex_device ''laptop'' ''100.64.0.1''])
        (ex_cfg\<lparr>mode := ''wireguard''\<rparr>)
      = ([ERROR_invalid_mode ''wireguard''], Aborted)"
  using invalid_mode_aborts [of "ex_cfg\<lparr>mode := ''wireguard''\<rparr>"
      "ex_env id [ex_zone_rec ''r2'' ''old.example.com'' ''100.64.0.9''] [ex_device ''laptop'' ''100.64.0.1'']"]
  by (simp add: ex_defs perform_sync_cycle_def fetch_ts_records_def provider_def zone_after_def)

section \<open>Desired-state builder: colliding keys\<close>

text \<open>
  C8. When two devices of the inventory map to the same key and no device after the
  second one does, the DesiredSet holds exactly one entry under that key, and it is
  the record built from the second, later device.
\<close>

theorem last_write_wins:
  assumes "ts_key env cfg dev1 = ts_key env cfg dev2"
      and "\<forall>dev \<in> set zs. ts_key env cfg dev \<noteq> ts_key env cfg dev2"
  shows "map_of (current_ts_fqdns_ips env cfg (xs @ dev1 # ys @ dev2 # zs)) (ts_key env cfg dev2)
           = Some (ts_value env cfg dev2)
         \<and> length (filter (\<lambda>p. fst p = ts_key env cfg dev2)
                     (current_ts_fqdns_ips env cfg (xs @ dev1 # ys @ dev2 # zs))) = 1"
proof
  have "find (\<lambda>r. ts_key env cfg r = ts_key env cfg dev2) (rev zs) = None"
    using assms(2) by (simp add: find_None_iff)
  then show "map_of (current_ts_fqdns_ips env cfg (xs @ dev1 # ys @ dev2 # zs)) (ts_key env cfg dev2)
           = Some (ts_value env cfg dev2)"
    by (simp add: dict_lookup find_append)
next
  have "ts_key env cfg dev2 \<in> fst ` set (current_ts_fqdns_ips env cfg (xs @ dev1 # ys @ dev2 # zs))"
    by (simp add: dict_keys)
  then show "length (filter (\<lambda>p. fst p = ts_key env cfg dev2)
                     (current_ts_fqdns_ips env cfg (xs @ dev1 # ys @ dev2 # zs))) = 1"
    by (rule count_key_one [OF dict_distinct])
qed

text \<open>
  Two devices whose host names differ only in case and in what follows the first
  label, with the same address: one entry, with the host name of the later device.
\<close>

theorem last_write_wins_witness:
  "ts_key (ex_env id [] []) ex_cfg (ex_device ''Laptop.lan'' ''100.64.0.1'')
     = ts_key (ex_env id [] []) ex_cfg (ex_device ''laptop'' ''100.64.0.1'')
   \<and> ts_key (ex_env id [] []) ex_cfg (ex_device ''nas'' ''100.64.0.2'')
       \<noteq> ts_key (ex_env id [] []) ex_cfg (ex_device ''laptop'' ''100.64.0.1'')
   \<and> current_ts_fqdns_ips (ex_env id [] []) ex_cfg
        [ex_device ''Laptop.lan'' ''100.64.0.1'', ex_device ''laptop'' ''100.64.0.1'',
         ex_device ''nas'' ''100.64.0.2'']
     = [(''laptop.example.com_100.64.0.1'',
         \<lparr>fqdn = ''laptop.example.com'', ts_address = ''100.64.0.1'', original_hostname = ''laptop''\<rparr>),
        (''nas.example.com_100.64.0.2'',
         \<lparr>fqdn = ''nas.example.com'', ts_address = ''100.64.0.2'', original_hostname = ''nas''\<rparr>)]"
  using last_write_wins [of "ex_env id [] []" ex_cfg "ex_device ''Laptop.lan'' ''100.64.0.1''"
      "ex_device ''laptop'' ''100.64.0.1''" "[ex_device ''nas'' ''100.64.0.2'']" "[]" "[]"]
  by (simp add: ex_defs eval_defs)

section \<open>Desired-state builder: the shape of a record\<close>

text \<open>
  What holds of the record of a device for every transform, the device being the
  last of the inventory with its key: the FQDN is the transform applied to the
  lower-cased first label of the host name, then a dot and the lower-cased subdomain
  when one is configured, then a dot and the lower-cased domain; it ends with the
  managed suffix; the DesiredSet holds the record of this device, and no other entry,
  under the key FQDN, underscore, address; and the FQDN is lower-case when the
  transformed label is.
\<close>

lemma desired_record_shape:
  assumes inv: "ts_records = pre @ dev # post"
      and last: "\<forall>x \<in> set post. ts_key env cfg x \<noteq> ts_key env cfg dev"
  shows "tsfqdn env cfg dev =
           alterHostname env (lower (takeWhile (\<lambda>c. c \<noteq> CHR ''.'') (hostname dev)))
             @ (case cf_sub cfg of None \<Rightarrow> [] | Some s \<Rightarrow> if s \<noteq> [] then ''.'' @ lower s else [])
             @ ''.'' @ lower (cf_domain cfg)
         \<and> endswith (tsfqdn env cfg dev) (expected_ending cfg)
         \<and> map_of (current_ts_fqdns_ips env cfg ts_records) (tsfqdn env cfg dev @ ''_'' @ address dev)
             = Some (ts_value env cfg dev)
         \<and> length (filter (\<lambda>p. fst p = tsfqdn env cfg dev @ ''_'' @ address dev)
                     (current_ts_fqdns_ips env cfg ts_records)) = 1
         \<and> (lower (hostname_part env dev) = hostname_part env dev
               \<longrightarrow> lower (tsfqdn env cfg dev) = tsfqdn env cfg dev)"
proof (intro conjI)
  show "tsfqdn env cfg dev =
           alterHostname env (lower (takeWhile (\<lambda>c. c \<noteq> CHR ''.'') (hostname dev)))
             @ (case cf_sub cfg of None \<Rightarrow> [] | Some s \<Rightarrow> if s \<noteq> [] then ''.'' @ lower s else [])
             @ ''.'' @ lower (cf_domain cfg)"
    by (simp add: tsfqdn_def hostname_part_def sub_part_def split_dot_0_takeWhile)
next
  show "endswith (tsfqdn env cfg dev) (expected_ending cfg)"
    by (rule endswith_tsfqdn)
next
  have mem: "(ts_key env cfg dev, ts_value env cfg dev) \<in> set (current_ts_fqdns_ips env cfg ts_records)"
    unfolding inv using last by (rule dict_last_writer)
  then have "map_of (current_ts_fqdns_ips env cfg ts_records) (ts_key env cfg dev)
      = Some (ts_value env cfg dev)"
    by (simp add: dict_distinct)
  then show "map_of (current_ts_fqdns_ips env cfg ts_records) (tsfqdn env cfg dev @ ''_'' @ address dev)
             = Some (ts_value env cfg dev)"
    by (simp add: ts_key_def)
  from mem have "ts_key env cfg dev \<in> fst ` set (current_ts_fqdns_ips env cfg ts_records)"
    by force
  then have "length (filter (\<lambda>p. fst p = ts_key env cfg dev)
                     (current_ts_fqdns_ips env cfg ts_records)) = 1"
    by (rule count_key_one [OF dict_distinct])
  then show "length (filter (\<lambda>p. fst p = tsfqdn env cfg dev @ ''_'' @ address dev)
                     (current_ts_fqdns_ips env cfg ts_records)) = 1"
    by (simp add: ts_key_def)
next
  show "lower (hostname_part env dev) = hostname_part env dev
               \<longrightarrow> lower (tsfqdn env cfg dev) = tsfqdn env cfg dev"
    by (simp add: tsfqdn_ending lower_append lower_expected_ending)
qed

text \<open>
  C7. The whole FQDN is not lower-case for every transform: line 63 lower-cases the
  label before the transform and line 64 appends the result as it is. With a prefix
  in capitals the FQDN keeps the capitals. Line 73 compares it with the lower-cased
  name of a zone record and line 98 looks up a key made of the lower-cased name, so
  neither finds the record the zone holds under this very name: it is created again
  and deleted as stale.
\<close>

theorem fqdn_capital_prefix_not_lower_case:
  "tsfqdn (ex_env (append ''TS-'') [] []) ex_cfg (ex_device ''Laptop'' ''100.64.0.1'')
     = ''TS-laptop.example.com''
   \<and> lower ''TS-laptop.example.com'' \<noteq> ''TS-laptop.example.com''
   \<and> creation_loop (ex_env (append ''TS-'') [] []) ex_cfg ''zone-1''
        [ex_zone_rec ''r1'' ''TS-laptop.example.com'' ''100.64.0.1'']
        (current_ts_fqdns_ips (ex_env (append ''TS-'') [] []) ex_cfg
           [ex_device ''Laptop'' ''100.64.0.1''])
     = ([ADDING ''TS-laptop.example.com'' ''100.64.0.1'',
         Call_createDNSRecord ''token'' ''example.com'' ''laptop'' ''A'' ''100.64.0.1'' None ''zone-1''],
        None)
   \<and> cleanup_loop (ex_env (append ''TS-'') [] []) ex_cfg ''zone-1''
        (current_ts_fqdns_ips (ex_env (append ''TS-'') [] []) ex_cfg
           [ex_device ''Laptop'' ''100.64.0.1''])
        [ex_zone_rec ''r1'' ''TS-laptop.example.com'' ''100.64.0.1'']
     = [DELETING_STALE ''ts-laptop.example.com'' ''100.64.0.1'',
        Call_deleteDNSRecord ''token'' ''example.com'' ''r1'' ''zone-1'']"
proof -
  let ?env = "ex_env (append ''TS-'') [] []"
  let ?inv = "[ex_device ''Laptop'' ''100.64.0.1'']"
  have name: "tsfqdn ?env ex_cfg (ex_device ''Laptop'' ''100.64.0.1'') = ''TS-laptop.example.com''"
    by (simp add: ex_defs eval_defs)
  have low: "lower ''TS-laptop.example.com'' \<noteq> ''TS-laptop.example.com''"
    by (simp add: lower_def lower_char_def)
  have d: "current_ts_fqdns_ips ?env ex_cfg ?inv
      = [(''TS-laptop.example.com_100.64.0.1'',
          \<lparr>fqdn = ''TS-laptop.example.com'', ts_address = ''100.64.0.1'',
           original_hostname = ''Laptop''\<rparr>)]"
    by (simp add: ex_defs eval_defs)
  have create: "creation_loop ?env ex_cfg ''zone-1''
        [ex_zone_rec ''r1'' ''TS-laptop.example.com'' ''100.64.0.1'']
        (current_ts_fqdns_ips ?env ex_cfg ?inv)
     = ([ADDING ''TS-laptop.example.com'' ''100.64.0.1'',
         Call_createDNSRecord ''token'' ''example.com'' ''laptop'' ''A'' ''100.64.0.1'' None ''zone-1''],
        None)"
    unfolding d by (simp add: ex_defs eval_defs)
  have delete: "cleanup_loop ?env ex_cfg ''zone-1'' (current_ts_fqdns_ips ?env ex_cfg ?inv)
        [ex_zone_rec ''r1'' ''TS-laptop.example.com'' ''100.64.0.1'']
     = [DELETING_STALE ''ts-laptop.example.com'' ''100.64.0.1'',
        Call_deleteDNSRecord ''token'' ''example.com'' ''r1'' ''zone-1'']"
    unfolding d by (simp add: ex_defs eval_defs)
  from name low create delete show ?thesis by (intro conjI)
qed

section \<open>Cleanup phase: non-mesh protection\<close>

text \<open>
  C3, as amended. A zone record whose lower-cased name ends with the managed suffix
  and whose content fails the mesh-address predicate is never deleted: the cleanup
  step gives it no event when its key is in the DesiredSet, and the single line
  SKIP DELETE otherwise; and every delete call of the cleanup loop is for a record
  whose content passes the predicate.
\<close>

theorem non_mesh_protection:
  assumes "endswith (lower (name r)) (expected_ending cfg)"
      and "\<not> isTailscaleIP env (content r)"
  shows "cleanup_step env cfg zid d r =
           (if dict_has d (lower (name r) @ ''_'' @ content r) then []
            else [SKIP_DELETE (lower (name r)) (content r)])
         \<and> (\<forall>e \<in> set (cleanup_loop env cfg zid d z). is_delete e \<longrightarrow>
               (\<exists>r' \<in> set z. e = Call_deleteDNSRecord (cf_key cfg) (cf_domain cfg) (rec_id r') zid
                              \<and> isTailscaleIP env (content r')))"
proof
  show "cleanup_step env cfg zid d r =
           (if dict_has d (lower (name r) @ ''_'' @ content r) then []
            else [SKIP_DELETE (lower (name r)) (content r)])"
    using assms by (simp add: cleanup_step_cases)
next
  show "\<forall>e \<in> set (cleanup_loop env cfg zid d z). is_delete e \<longrightarrow>
               (\<exists>r' \<in> set z. e = Call_deleteDNSRecord (cf_key cfg) (cf_domain cfg) (rec_id r') zid
                              \<and> isTailscaleIP env (content r'))"
  proof (intro ballI impI)
    fix e
    assume "e \<in> set (cleanup_loop env cfg zid d z)" and del: "is_delete e"
    then obtain r' where "r' \<in> set z" and "e \<in> set (cleanup_step env cfg zid d r')"
      by (auto simp: cleanup_loop_concat)
    with del show "\<exists>r' \<in> set z. e = Call_deleteDNSRecord (cf_key cfg) (cf_domain cfg) (rec_id r') zid
                              \<and> isTailscaleIP env (content r')"
      using cleanup_step_delete by blast
  qed
qed

text \<open>The printer of the spec: inside the suffix, outside the mesh range, not desired.\<close>

theorem non_mesh_protection_witness:
  "endswith (lower (name (ex_zone_rec ''r3'' ''printer.example.com'' ''203.0.113.5''))) (expected_ending ex_cfg)
   \<and> \<not> isTailscaleIP (ex_env id [] []) (content (ex_zone_rec ''r3'' ''printer.example.com'' ''203.0.113.5''))
   \<and> cleanup_loop (ex_env id [] []) ex_cfg ''zone-1''
        (current_ts_fqdns_ips (ex_env id [] []) ex_cfg [ex_device ''laptop'' ''100.64.0.1''])
        [ex_zone_rec ''r3'' ''printer.example.com'' ''203.0.113.5'']
     = [SKIP_DELETE ''printer.example.com'' ''203.0.113.5'']"
  using non_mesh_protection [of "ex_zone_rec ''r3'' ''printer.example.com'' ''203.0.113.5''" ex_cfg
      "ex_env id [] []" "''zone-1''"
      "current_ts_fqdns_ips (ex_env id [] []) ex_cfg [ex_device ''laptop'' ''100.64.0.1'']" "[]"]
  by (simp add: ex_defs eval_defs)

text \<open>
  C3 as stated fails in its second half: the key lookup comes first, so a record
  inside the suffix with a non-mesh content that is in the DesiredSet (a device whose
  address lies outside the range the predicate knows) is skipped as current, with no
  SKIP DELETE line.
\<close>

theorem non_mesh_current_counterexample:
  "endswith (lower (name (ex_zone_rec ''r4'' ''nas.example.com'' ''10.0.0.5''))) (expected_ending ex_cfg)
   \<and> \<not> isTailscaleIP (ex_env id [] []) (content (ex_zone_rec ''r4'' ''nas.example.com'' ''10.0.0.5''))
   \<and> cleanup_loop (ex_env id [] []) ex_cfg ''zone-1''
        (current_ts_fqdns_ips (ex_env id [] []) ex_cfg [ex_device ''nas'' ''10.0.0.5''])
        [ex_zone_rec ''r4'' ''nas.example.com'' ''10.0.0.5'']
     = []"
  by (simp add: ex_defs eval_defs)

section \<open>Cleanup phase: the currency test\<close>

text \<open>
  C10. The cleanup loop treats a zone record as current exactly when the string made
  of its lower-cased name, an underscore and its content is a key of the DesiredSet,
  that is, equal to FQDN, underscore, address for some device: a record with such a
  key adds nothing to the events of the loop. Hence a record whose content differs
  as a string from the address of every device with its name (as another spelling of
  the same IP does) has no such key, and when its name ends with the managed suffix
  and its content passes the mesh-address predicate, the loop over any snapshot that
  holds it prints DELETING STALE and issues the delete call with its id, at its place
  among the events. Addresses and contents hold no underscore, so that a key splits
  in one way only.
\<close>

theorem currency_is_key_lookup:
  assumes us1: "\<forall>dev \<in> set ts_records. CHR ''_'' \<notin> set (address dev)"
      and us2: "CHR ''_'' \<notin> set (content r)"
      and differs: "\<forall>dev \<in> set ts_records. tsfqdn env cfg dev = lower (name r) \<longrightarrow> address dev \<noteq> content r"
      and suffix: "endswith (lower (name r)) (expected_ending cfg)"
      and mesh: "isTailscaleIP env (content r)"
  shows "(\<forall>pre' r' post'.
            lower (name r') @ ''_'' @ content r'
              \<in> (\<lambda>dev. tsfqdn env cfg dev @ ''_'' @ address dev) ` set ts_records \<longrightarrow>
            cleanup_loop env cfg zid (current_ts_fqdns_ips env cfg ts_records) (pre' @ r' # post')
              = cleanup_loop env cfg zid (current_ts_fqdns_ips env cfg ts_records) pre'
                @ cleanup_loop env cfg zid (current_ts_fqdns_ips env cfg ts_records) post')
         \<and> lower (name r) @ ''_'' @ content r
              \<notin> (\<lambda>dev. tsfqdn env cfg dev @ ''_'' @ address dev) ` set ts_records
         \<and> cleanup_loop env cfg zid (current_ts_fqdns_ips env cfg ts_records) (pre @ r # post)
             = cleanup_loop env cfg zid (current_ts_fqdns_ips env cfg ts_records) pre
               @ [DELETING_STALE (lower (name r)) (content r),
                  Call_deleteDNSRecord (cf_key cfg) (cf_domain cfg) (rec_id r) zid]
               @ cleanup_loop env cfg zid (current_ts_fqdns_ips env cfg ts_records) post
         \<and> Call_deleteDNSRecord (cf_key cfg) (cf_domain cfg) (rec_id r) zid
              \<in> set (cleanup_loop env cfg zid (current_ts_fqdns_ips env cfg ts_records) (pre @ r # post))"
proof -
  let ?d = "current_ts_fqdns_ips env cfg ts_records"
  let ?keys = "(\<lambda>dev. tsfqdn env cfg dev @ ''_'' @ address dev) ` set ts_records"
  have has: "\<And>k. dict_has ?d k \<longleftrightarrow> k \<in> ?keys"
    by (simp add: dict_has_iff ts_key_def [abs_def])
  have absent: "lower (name r) @ ''_'' @ content r \<notin> ?keys"
  proof
    assume "lower (name r) @ ''_'' @ content r \<in> ?keys"
    then obtain dev where dev: "dev \<in> set ts_records"
      and eq: "lower (name r) @ ''_'' @ content r = tsfqdn env cfg dev @ ''_'' @ address dev"
      by blast
    from dev us1 have "CHR ''_'' \<notin> set (address dev)" by blast
    from key_split_unique [OF eq us2 this]
    have "tsfqdn env cfg dev = lower (name r)" and "address dev = content r" by simp_all
    with differs dev show False by blast
  qed
  have current: "\<forall>pre' r' post'. lower (name r') @ ''_'' @ content r' \<in> ?keys \<longrightarrow>
            cleanup_loop env cfg zid ?d (pre' @ r' # post')
              = cleanup_loop env cfg zid ?d pre' @ cleanup_loop env cfg zid ?d post'"
    by (simp add: cleanup_loop_append cleanup_step_cases has)
  have step: "cleanup_step env cfg zid ?d r
             = [DELETING_STALE (lower (name r)) (content r),
                Call_deleteDNSRecord (cf_key cfg) (cf_domain cfg) (rec_id r) zid]"
    using absent suffix mesh by (simp add: cleanup_step_cases has)
  have loop: "cleanup_loop env cfg zid ?d (pre @ r # post)
             = cleanup_loop env cfg zid ?d pre
               @ [DELETING_STALE (lower (name r)) (content r),
                  Call_deleteDNSRecord (cf_key cfg) (cf_domain cfg) (rec_id r) zid]
               @ cleanup_loop env cfg zid ?d post"
    by (simp add: cleanup_loop_append step)
  have "Call_deleteDNSRecord (cf_key cfg) (cf_domain cfg) (rec_id r) zid
              \<in> set (cleanup_loop env cfg zid ?d (pre @ r # post))"
    unfolding loop by simp
  with current absent loop show ?thesis by (intro conjI)
qed

text \<open>
  The same IPv6 address, compressed in the inventory and written out in the zone,
  between a current record and a record outside the suffix.
\<close>

theorem currency_is_key_lookup_witness:
  "CHR ''_'' \<notin> set (address (ex_device ''nas'' ''fd7a:115c:a1e0::1''))
   \<and> address (ex_device ''nas'' ''fd7a:115c:a1e0::1'')
       \<noteq> content (ex_zone_rec ''r5'' ''nas.example.com'' ''fd7a:115c:a1e0:0:0:0:0:1'')
   \<and> CHR ''_'' \<notin> set (content (ex_zone_rec ''r5'' ''nas.example.com'' ''fd7a:115c:a1e0:0:0:0:0:1''))
   \<and> endswith (lower (name (ex_zone_rec ''r5'' ''nas.example.com'' ''fd7a:115c:a1e0:0:0:0:0:1'')))
        (expected_ending ex_cfg)
   \<and> isTailscaleIP (ex_env id [] []) (content (ex_zone_rec ''r5'' ''nas.example.com'' ''fd7a:115c:a1e0:0:0:0:0:1''))
   \<and> cleanup_loop (ex_env id [] []) ex_cfg ''zone-1''
        (current_ts_fqdns_ips (ex_env id [] []) ex_cfg [ex_device ''nas'' ''fd7a:115c:a1e0::1''])
        [ex_zone_rec ''r6'' ''NAS.example.com'' ''fd7a:115c:a1e0::1'',
         ex_zone_rec ''r5'' ''nas.example.com'' ''fd7a:115c:a1e0:0:0:0:0:1'',
         ex_zone_rec ''r7'' ''www.other.org'' ''100.64.0.5'']
     = [DELETING_STALE ''nas.example.com'' ''fd7a:115c:a1e0:0:0:0:0:1'',
        Call_deleteDNSRecord ''token'' ''example.com'' ''r5'' ''zone-1'']"
proof -
  let ?env = "ex_env id [] []"
  let ?inv = "[ex_device ''nas'' ''fd7a:115c:a1e0::1'']"
  let ?r = "ex_zone_rec ''r5'' ''nas.example.com'' ''fd7a:115c:a1e0:0:0:0:0:1''"
  let ?pre = "[ex_zone_rec ''r6'' ''NAS.example.com'' ''fd7a:115c:a1e0::1'']"
  let ?post = "[ex_zone_rec ''r7'' ''www.other.org'' ''100.64.0.5'']"
  have us1: "\<forall>dev \<in> set ?inv. CHR ''_'' \<notin> set (address dev)"
    by (simp add: ex_device_def)
  have us2: "CHR ''_'' \<notin> set (content ?r)"
    by (simp add: ex_zone_rec_def)
  have differs: "\<forall>dev \<in> set ?inv. tsfqdn ?env ex_cfg dev = lower (name ?r) \<longrightarrow> address dev \<noteq> content ?r"
    by (simp add: ex_device_def ex_zone_rec_def)
  have suffix: "endswith (lower (name ?r)) (expected_ending ex_cfg)"
    by (simp add: ex_defs eval_defs)
  have mesh: "isTailscaleIP ?env (content ?r)"
    by (simp add: ex_defs)
  have d: "current_ts_fqdns_ips ?env ex_cfg ?inv
      = [(''nas.example.com_fd7a:115c:a1e0::1'',
          \<lparr>fqdn = ''nas.example.com'', ts_address = ''fd7a:115c:a1e0::1'', original_hostname = ''nas''\<rparr>)]"
    by (simp add: ex_defs eval_defs)
  have pre: "cleanup_loop ?env ex_cfg ''zone-1'' (current_ts_fqdns_ips ?env ex_cfg ?inv) ?pre = []"
    unfolding d by (simp add: ex_defs eval_defs)
  have post: "cleanup_loop ?env ex_cfg ''zone-1'' (current_ts_fqdns_ips ?env ex_cfg ?inv) ?post = []"
    unfolding d by (simp add: ex_defs eval_defs)
  from currency_is_key_lookup [OF us1 us2 differs suffix mesh, of "''zone-1''" ?pre ?post]
  have "cleanup_loop ?env ex_cfg ''zone-1'' (current_ts_fqdns_ips ?env ex_cfg ?inv) (?pre @ ?r # ?post)
      = cleanup_loop ?env ex_cfg ''zone-1'' (current_ts_fqdns_ips ?env ex_cfg ?inv) ?pre
        @ [DELETING_STALE (lower (name ?r)) (content ?r),
           Call_deleteDNSRecord (cf_key ex_cfg) (cf_domain ex_cfg) (rec_id ?r) ''zone-1'']
        @ cleanup_loop ?env ex_cfg ''zone-1'' (current_ts_fqdns_ips ?env ex_cfg ?inv) ?post"
    by blast
  then have "cleanup_loop ?env ex_cfg ''zone-1'' (current_ts_fqdns_ips ?env ex_cfg ?inv) (?pre @ ?r # ?post)
      = [DELETING_STALE ''nas.example.com'' ''fd7a:115c:a1e0:0:0:0:0:1'',
         Call_deleteDNSRecord ''token'' ''example.com'' ''r5'' ''zone-1'']"
    unfolding pre post by (simp add: ex_zone_rec_def ex_cfg_def lower_def lower_char_def)
  with us2 suffix mesh show ?thesis
    by (simp add: ex_device_def ex_zone_rec_def)
qed

section \<open>Creation phase: the matching rule\<close>

text \<open>
  C5. Let the addresses of the inventory be IP addresses. Then the creation loop
  goes through every DesiredRecord once, without an exception, and for each record:
  it prints UP-TO-DATE, and that line only, if and only if the snapshot holds a zone
  record whose lower-cased name equals the FQDN and whose content equals the address
  as a string (both at once); an UP-TO-DATE record gets no create call; and the
  events of the record are exactly one of the three: UP-TO-DATE, or ADDING with its
  create call, or SKIPPING INVALID HOSTNAME.
\<close>

theorem matching_rule:
  assumes "\<forall>dev \<in> set ts_records. ip_address env (address dev) \<noteq> None"
      and "d = current_ts_fqdns_ips env cfg ts_records"
  shows "creation_loop env cfg zid cf d
           = (concat (map (\<lambda>(k, t). fst (creation_step env cfg zid cf t)) d), None)
         \<and> distinct (map fst d)
         \<and> (\<forall>(k, t) \<in> set d.
               (fst (creation_step env cfg zid cf t) = [UP_TO_DATE (fqdn t) (ts_address t)]
                  \<longleftrightarrow> (\<exists>r \<in> set cf. lower (name r) = fqdn t \<and> content r = ts_address t))
               \<and> (UP_TO_DATE (fqdn t) (ts_address t) \<in> set (fst (creation_step env cfg zid cf t))
                    \<longrightarrow> filter is_create (fst (creation_step env cfg zid cf t)) = [])
               \<and> fst (creation_step env cfg zid cf t)
                   = (if \<exists>r \<in> set cf. lower (name r) = fqdn t \<and> content r = ts_address t
                      then [UP_TO_DATE (fqdn t) (ts_address t)]
                      else if isValidDNSRecord env (original_hostname t)
                      then [ADDING (fqdn t) (ts_address t),
                            Call_createDNSRecord (cf_key cfg) (cf_domain cfg)
                              (lower (split_dot_0 (original_hostname t)))
                              (records_typemap (the (ip_address env (ts_address t))))
                              (ts_address t) (cf_sub cfg) zid]
                      else [SKIPPING_INVALID_HOSTNAME (original_hostname t) (fqdn t) (ts_address t)]))"
proof (intro conjI)
  have parse: "\<And>k t. (k, t) \<in> set d \<Longrightarrow> ip_address env (ts_address t) \<noteq> None"
    using dict_addresses_parse [OF assms(1)] assms(2) by blast
  have "\<forall>(k, t) \<in> set d. snd (creation_step env cfg zid cf t) = None"
  proof (intro ballI, clarify)
    fix k t
    assume "(k, t) \<in> set d"
    then have "ip_address env (ts_address t) \<noteq> None" by (rule parse)
    then show "snd (creation_step env cfg zid cf t) = None"
      by (auto simp: creation_step_cases)
  qed
  then show "creation_loop env cfg zid cf d
           = (concat (map (\<lambda>(k, t). fst (creation_step env cfg zid cf t)) d), None)"
    by (rule creation_loop_ok)
  show "distinct (map fst d)"
    by (simp add: assms(2) dict_distinct)
  show "\<forall>(k, t) \<in> set d.
               (fst (creation_step env cfg zid cf t) = [UP_TO_DATE (fqdn t) (ts_address t)]
                  \<longleftrightarrow> (\<exists>r \<in> set cf. lower (name r) = fqdn t \<and> content r = ts_address t))
               \<and> (UP_TO_DATE (fqdn t) (ts_address t) \<in> set (fst (creation_step env cfg zid cf t))
                    \<longrightarrow> filter is_create (fst (creation_step env cfg zid cf t)) = [])
               \<and> fst (creation_step env cfg zid cf t)
                   = (if \<exists>r \<in> set cf. lower (name r) = fqdn t \<and> content r = ts_address t
                      then [UP_TO_DATE (fqdn t) (ts_address t)]
                      else if isValidDNSRecord env (original_hostname t)
                      then [ADDING (fqdn t) (ts_address t),
                            Call_createDNSRecord (cf_key cfg) (cf_domain cfg)
                              (lower (split_dot_0 (original_hostname t)))
                              (records_typemap (the (ip_address env (ts_address t))))
                              (ts_address t) (cf_sub cfg) zid]
                      else [SKIPPING_INVALID_HOSTNAME (original_hostname t) (fqdn t) (ts_address t)])"
  proof (intro ballI, clarify)
    fix k t
    assume "(k, t) \<in> set d"
    then have "ip_address env (ts_address t) \<noteq> None" by (rule parse)
    then show "(fst (creation_step env cfg zid cf t) = [UP_TO_DATE (fqdn t) (ts_address t)]
                  \<longleftrightarrow> (\<exists>r \<in> set cf. lower (name r) = fqdn t \<and> content r = ts_address t))
               \<and> (UP_TO_DATE (fqdn t) (ts_address t) \<in> set (fst (creation_step env cfg zid cf t))
                    \<longrightarrow> filter is_create (fst (creation_step env cfg zid cf t)) = [])
               \<and> fst (creation_step env cfg zid cf t)
                   = (if \<exists>r \<in> set cf. lower (name r) = fqdn t \<and> content r = ts_address t
                      then [UP_TO_DATE (fqdn t) (ts_address t)]
                      else if isValidDNSRecord env (original_hostname t)
                      then [ADDING (fqdn t) (ts_address t),
                            Call_createDNSRecord (cf_key cfg) (cf_domain cfg)
                              (lower (split_dot_0 (original_hostname t)))
                              (records_typemap (the (ip_address env (ts_address t))))
                              (ts_address t) (cf_sub cfg) zid]
                      else [SKIPPING_INVALID_HOSTNAME (original_hostname t) (fqdn t) (ts_address t)])"
      by (auto simp: creation_step_cases any_match_iff)
  qed
qed

text \<open>
  One record matched up to the case of the name, one whose name alone matches,
  one whose address alone matches and whose host name is invalid.
\<close>

theorem matching_rule_witness:
  "ip_address (ex_env id [] []) (address (ex_device ''laptop'' ''100.64.0.1'')) \<noteq> None
   \<and> ip_address (ex_env id [] []) (address (ex_device ''nas'' ''100.64.0.2'')) \<noteq> None
   \<and> ip_address (ex_env id [] []) (address (ex_device ''bad_host'' ''100.64.0.3'')) \<noteq> None
   \<and> creation_loop (ex_env id [] []) ex_cfg ''zone-1''
        [ex_zone_rec ''r1'' ''Laptop.Example.com'' ''100.64.0.1'',
         ex_zone_rec ''r2'' ''nas.example.com'' ''100.64.0.9'',
         ex_zone_rec ''r3'' ''other.example.com'' ''100.64.0.3'']
        (current_ts_fqdns_ips (ex_env id [] []) ex_cfg
           [ex_device ''laptop'' ''100.64.0.1'', ex_device ''nas'' ''100.64.0.2'',
            ex_device ''bad_host'' ''100.64.0.3''])
     = ([UP_TO_DATE ''laptop.example.com'' ''100.64.0.1'',
         ADDING ''nas.example.com'' ''100.64.0.2'',
         Call_createDNSRecord ''token'' ''example.com'' ''nas'' ''A'' ''100.64.0.2'' None ''zone-1'',
         SKIPPING_INVALID_HOSTNAME ''bad_host'' ''bad_host.example.com'' ''100.64.0.3''], None)"
proof -
  let ?env = "ex_env id [] []"
  let ?inv = "[ex_device ''laptop'' ''100.64.0.1'', ex_device ''nas'' ''100.64.0.2'',
               ex_device ''bad_host'' ''100.64.0.3'']"
  let ?cf = "[ex_zone_rec ''r1'' ''Laptop.Example.com'' ''100.64.0.1'',
              ex_zone_rec ''r2'' ''nas.example.com'' ''100.64.0.9'',
              ex_zone_rec ''r3'' ''other.example.com'' ''100.64.0.3'']"
  have parse: "\<forall>dev \<in> set ?inv. ip_address ?env (address dev) \<noteq> None"
    by (simp add: ex_defs)
  have d: "current_ts_fqdns_ips ?env ex_cfg ?inv
      = [(''laptop.example.com_100.64.0.1'',
          \<lparr>fqdn = ''laptop.example.com'', ts_address = ''100.64.0.1'', original_hostname = ''laptop''\<rparr>),
         (''nas.example.com_100.64.0.2'',
          \<lparr>fqdn = ''nas.example.com'', ts_address = ''100.64.0.2'', original_hostname = ''nas''\<rparr>),
         (''bad_host.example.com_100.64.0.3'',
          \<lparr>fqdn = ''bad_host.example.com'', ts_address = ''100.64.0.3'',
           original_hostname = ''bad_host''\<rparr>)]"
    by (simp add: ex_defs eval_defs)
  have steps: "concat (map (\<lambda>(k, t). fst (creation_step ?env ex_cfg ''zone-1'' ?cf t))
                  (current_ts_fqdns_ips ?env ex_cfg ?inv))
      = [UP_TO_DATE ''laptop.example.com'' ''100.64.0.1'',
         ADDING ''nas.example.com'' ''100.64.0.2'',
         Call_createDNSRecord ''token'' ''example.com'' ''nas'' ''A'' ''100.64.0.2'' None ''zone-1'',
         SKIPPING_INVALID_HOSTNAME ''bad_host'' ''bad_host.example.com'' ''100.64.0.3'']"
    unfolding d by (simp add: ex_defs eval_defs)
  from matching_rule [OF parse refl, of ex_cfg "''zone-1''" ?cf]
  have "creation_loop ?env ex_cfg ''zone-1'' ?cf (current_ts_fqdns_ips ?env ex_cfg ?inv)
      = (concat (map (\<lambda>(k, t). fst (creation_step ?env ex_cfg ''zone-1'' ?cf t))
                  (current_ts_fqdns_ips ?env ex_cfg ?inv)), None)"
    by (rule conjunct1)
  with steps parse show ?thesis by simp
qed

section \<open>Creation phase: the validity gate\<close>



section \<open>Creation phase: idempotence\<close>

text \<open>
  C6, as amended. Let the transform return lower-case labels for lower-case labels,
  and let a first run of the creation loop on a snapshot end without an exception.
  A second run on the same DesiredSet and on the zone as the record mutator leaves it
  after the events of the first run issues no create call: every record that was up
  to date or passed the validity gate in the first run is now UP-TO-DATE, and every
  other record is SKIPPING INVALID HOSTNAME again.
\<close>

theorem creation_idempotent:
  assumes lc: "\<forall>l. lower (alterHostname env (lower l)) = alterHostname env (lower l)"
      and d: "d = current_ts_fqdns_ips env cfg ts_records"
      and run: "creation_loop env cfg zid cf d = (evs, None)"
  shows "creation_loop env cfg zid (zone_after (alterHostname env) cf evs) d
           = (concat (map (\<lambda>(k, t).
                if any_match cf (fqdn t) (ts_address t) \<or> isValidDNSRecord env (original_hostname t)
                then [UP_TO_DATE (fqdn t) (ts_address t)]
                else [SKIPPING_INVALID_HOSTNAME (original_hostname t) (fqdn t) (ts_address t)]) d),
              None)
         \<and> filter is_create
              (fst (creation_loop env cfg zid (zone_after (alterHostname env) cf evs) d)) = []"
proof -
  let ?z = "zone_after (alterHostname env) cf evs"
  let ?second = "\<lambda>(k, t).
      if any_match cf (fqdn t) (ts_address t) \<or> isValidDNSRecord env (original_hostname t)
      then [UP_TO_DATE (fqdn t) (ts_address t)]
      else [SKIPPING_INVALID_HOSTNAME (original_hostname t) (fqdn t) (ts_address t)]"
  have first_ok: "\<forall>(k, t) \<in> set d. snd (creation_step env cfg zid cf t) = None"
    using creation_loop_returns [OF run] .
  have step: "creation_step env cfg zid ?z t = (?second (k, t), None)" if t: "(k, t) \<in> set d" for k t
  proof (cases "any_match cf (fqdn t) (ts_address t) \<or> isValidDNSRecord env (original_hostname t)")
    case True
    with match_after_creation [OF lc d run t] have "any_match ?z (fqdn t) (ts_address t)"
      by simp
    with True show ?thesis by (simp add: creation_step_cases)
  next
    case False
    with match_after_creation [OF lc d run t] have no: "\<not> any_match ?z (fqdn t) (ts_address t)"
      by simp
    from first_ok t have "snd (creation_step env cfg zid cf t) = None" by auto
    with False have "ip_address env (ts_address t) \<noteq> None"
      by (auto simp: creation_step_cases split: if_splits)
    with False no show ?thesis by (auto simp: creation_step_cases)
  qed
  then have "\<forall>(k, t) \<in> set d. snd (creation_step env cfg zid ?z t) = None"
    by auto
  from creation_loop_ok [OF this]
  have "creation_loop env cfg zid ?z d
      = (concat (map (\<lambda>(k, t). fst (creation_step env cfg zid ?z t)) d), None)" .
  also have "map (\<lambda>(k, t). fst (creation_step env cfg zid ?z t)) d = map ?second d"
    using step by (intro map_cong refl) auto
  finally have second: "creation_loop env cfg zid ?z d = (concat (map ?second d), None)" .
  have "\<forall>e \<in> set (concat (map ?second d)). \<not> is_create e"
    by (auto split: if_splits)
  then have "filter is_create (concat (map ?second d)) = []"
    by (simp only: filter_empty_conv)
  with second show ?thesis by simp
qed


text \<open>A lower-case prefix, one device that is created and one that is skipped.\<close>

theorem creation_idempotent_witness:
  "(\<forall>l. lower (alterHostname (ex_env (append ''ts-'') [] []) (lower l))
          = alterHostname (ex_env (append ''ts-'') [] []) (lower l))
   \<and> creation_loop (ex_env (append ''ts-'') [] []) ex_cfg ''zone-1'' []
        (current_ts_fqdns_ips (ex_env (append ''ts-'') [] []) ex_cfg
           [ex_device ''Laptop'' ''100.64.0.1'', ex_device ''bad_host'' ''100.64.0.3''])
     = ([ADDING ''ts-laptop.example.com'' ''100.64.0.1'',
         Call_createDNSRecord ''token'' ''example.com'' ''laptop'' ''A'' ''100.64.0.1'' None ''zone-1'',
         SKIPPING_INVALID_HOSTNAME ''bad_host'' ''ts-bad_host.example.com'' ''100.64.0.3''], None)
   \<and> creation_loop (ex_env (append ''ts-'') [] []) ex_cfg ''zone-1''
        (zone_after (append ''ts-'') []
           [ADDING ''ts-laptop.example.com'' ''100.64.0.1'',
            Call_createDNSRecord ''token'' ''example.com'' ''laptop'' ''A'' ''100.64.0.1'' None ''zone-1'',
            SKIPPING_INVALID_HOSTNAME ''bad_host'' ''ts-bad_host.example.com'' ''100.64.0.3''])
        (current_ts_fqdns_ips (ex_env (append ''ts-'') [] []) ex_cfg
           [ex_device ''Laptop'' ''100.64.0.1'', ex_device ''bad_host'' ''100.64.0.3''])
     = ([UP_TO_DATE ''ts-laptop.example.com'' ''100.64.0.1'',
         SKIPPING_INVALID_HOSTNAME ''bad_host'' ''ts-bad_host.example.com'' ''100.64.0.3''], None)"
proof -
  let ?env = "ex_env (append ''ts-'') [] []"
  let ?inv = "[ex_device ''Laptop'' ''100.64.0.1'', ex_device ''bad_host'' ''100.64.0.3'']"
  let ?evs = "[ADDING ''ts-laptop.example.com'' ''100.64.0.1'',
      Call_createDNSRecord ''token'' ''example.com'' ''laptop'' ''A'' ''100.64.0.1'' None ''zone-1'',
      SKIPPING_INVALID_HOSTNAME ''bad_host'' ''ts-bad_host.example.com'' ''100.64.0.3'']"
  have lc: "\<forall>l. lower (alterHostname ?env (lower l)) = alterHostname ?env (lower l)"
    by (simp add: ex_env_def lower_append lower_idem) (simp add: lower_def lower_char_def)
  have alter: "alterHostname ?env = append ''ts-''"
    by (simp add: ex_env_def)
  have d: "current_ts_fqdns_ips ?env ex_cfg ?inv
      = [(''ts-laptop.example.com_100.64.0.1'',
          \<lparr>fqdn = ''ts-laptop.example.com'', ts_address = ''100.64.0.1'',
           original_hostname = ''Laptop''\<rparr>),
         (''ts-bad_host.example.com_100.64.0.3'',
          \<lparr>fqdn = ''ts-bad_host.example.com'', ts_address = ''100.64.0.3'',
           original_hostname = ''bad_host''\<rparr>)]"
    by (simp add: ex_defs eval_defs)
  have run: "creation_loop ?env ex_cfg ''zone-1'' [] (current_ts_fqdns_ips ?env ex_cfg ?inv)
      = (?evs, None)"
    unfolding d by (simp add: ex_defs eval_defs)
  have second: "concat (map (\<lambda>(k, t).
                if any_match [] (fqdn t) (ts_address t) \<or> isValidDNSRecord ?env (original_hostname t)
                then [UP_TO_DATE (fqdn t) (ts_address t)]
                else [SKIPPING_INVALID_HOSTNAME (original_hostname t) (fqdn t) (ts_address t)])
              (current_ts_fqdns_ips ?env ex_cfg ?inv))
      = [UP_TO_DATE ''ts-laptop.example.com'' ''100.64.0.1'',
         SKIPPING_INVALID_HOSTNAME ''bad_host'' ''ts-bad_host.example.com'' ''100.64.0.3'']"
    unfolding d by (simp add: ex_defs any_match_def)
  from creation_idempotent [OF lc refl run] second
  have "creation_loop ?env ex_cfg ''zone-1'' (zone_after (alterHostname ?env) [] ?evs)
          (current_ts_fqdns_ips ?env ex_cfg ?inv)
      = ([UP_TO_DATE ''ts-laptop.example.com'' ''100.64.0.1'',
          SKIPPING_INVALID_HOSTNAME ''bad_host'' ''ts-bad_host.example.com'' ''100.64.0.3''], None)"
    by simp
  with lc run show ?thesis by (simp only: alter) simp
qed

text \<open>
  C6 as stated fails in its second half: a record whose host name fails the validity
  gate is never created, so the second run skips it again instead of finding it up
  to date.
\<close>

theorem second_run_not_all_up_to_date_counterexample:
  "creation_loop (ex_env id [] []) ex_cfg ''zone-1'' []
        (current_ts_fqdns_ips (ex_env id [] []) ex_cfg [ex_device ''bad_host'' ''100.64.0.3''])
     = ([SKIPPING_INVALID_HOSTNAME ''bad_host'' ''bad_host.example.com'' ''100.64.0.3''], None)
   \<and> creation_loop (ex_env id [] []) ex_cfg ''zone-1''
        (zone_after id []
           [SKIPPING_INVALID_HOSTNAME ''bad_host'' ''bad_host.example.com'' ''100.64.0.3''])
        (current_ts_fqdns_ips (ex_env id [] []) ex_cfg [ex_device ''bad_host'' ''100.64.0.3''])
     = ([SKIPPING_INVALID_HOSTNAME ''bad_host'' ''bad_host.example.com'' ''100.64.0.3''], None)"
  by (simp add: ex_defs eval_defs zone_after_def)

section \<open>Convergence of one cycle\<close>

text \<open>
  C1, as amended. Let the zone answer as the record mutator leaves it, with distinct
  record ids at the start; let the transform return lower-case labels for lower-case
  labels; let no inventory address and no mesh address hold an underscore. If a
  cycle runs to its end on an inventory and reports no validation failure, then the
  managed subset of the resulting zone is the set of the FQDN and address pairs
  derivable from the inventory whose address passes the mesh-address predicate. When
  every address of the inventory passes it, this is the set of all derivable pairs.
\<close>

theorem convergence:
  assumes prov: "getZoneRecords env = provider (alterHostname env) z"
      and cyc: "perform_sync_cycle env cfg = (evs, Completed)"
      and inv: "fetch_ts_records env cfg = Some (Some ts_records)"
      and no_failure: "\<forall>e \<in> set evs. \<not> is_skipping e"
      and lc: "\<forall>l. lower (alterHostname env (lower l)) = alterHostname env (lower l)"
      and dist: "distinct (map rec_id z)"
      and us1: "\<forall>dev \<in> set ts_records. CHR ''_'' \<notin> set (address dev)"
      and us2: "\<forall>c. isTailscaleIP env c \<longrightarrow> CHR ''_'' \<notin> set c"
  shows "managed_subset env cfg (zone_after (alterHostname env) z evs)
           = {p \<in> derivable_pairs env cfg ts_records. isTailscaleIP env (snd p)}
         \<and> ((\<forall>dev \<in> set ts_records. isTailscaleIP env (address dev))
              \<longrightarrow> managed_subset env cfg (zone_after (alterHostname env) z evs)
                    = derivable_pairs env cfg ts_records)"
proof -
  let ?d = "current_ts_fqdns_ips env cfg ts_records"
  let ?R = "{(fqdn t, ts_address t) | k t. (k, t) \<in> set ?d \<and> isTailscaleIP env (ts_address t)
              \<and> (any_match z (fqdn t) (ts_address t) \<or> isValidDNSRecord env (original_hostname t))}"
  from cycle_completed [OF cyc inv]
  obtain zid z0 evs1 z1 where fetch0: "getZoneRecords env [] = Some z0"
    and run: "creation_loop env cfg zid z0 ?d = (evs1, None)"
    and fetch1: "getZoneRecords env evs1 = Some z1"
    and evs: "evs = evs1 @ cleanup_loop env cfg zid ?d z1"
    by blast
  from fetch0 prov have z0: "z0 = z"
    by (simp add: provider_def zone_after_Nil)
  from fetch1 prov have z1: "z1 = zone_after (alterHostname env) z evs1"
    by (simp add: provider_def)
  have final: "zone_after (alterHostname env) z evs
      = zone_after (alterHostname env) z1 (cleanup_loop env cfg zid ?d z1)"
    by (simp add: evs zone_after_append z1)
  from run z0 have run': "creation_loop env cfg zid z ?d = (evs1, None)" by simp
  have main: "managed_subset env cfg (zone_after (alterHostname env) z evs) = ?R"
    unfolding final by (rule converge_phases [OF lc refl run' dist us1 us2 z1])
  have ok: "\<forall>(k, t) \<in> set ?d. snd (creation_step env cfg zid z t) = None"
    using creation_loop_returns [OF run'] .
  have evs1: "evs1 = concat (map (\<lambda>(k, t). fst (creation_step env cfg zid z t)) ?d)"
    using creation_loop_ok [OF ok] run' by simp
  have passes: "any_match z (fqdn t) (ts_address t) \<or> isValidDNSRecord env (original_hostname t)"
    if t: "(k, t) \<in> set ?d" for k t
  proof (rule creation_step_skipping)
    from ok t show "snd (creation_step env cfg zid z t) = None" by auto
    have "set (fst (creation_step env cfg zid z t)) \<subseteq> set evs1"
      unfolding evs1 using t by force
    with no_failure evs show "\<forall>e \<in> set (fst (creation_step env cfg zid z t)). \<not> is_skipping e"
      by auto
  qed
  have R: "?R = {p \<in> derivable_pairs env cfg ts_records. isTailscaleIP env (snd p)}"
  proof (rule set_eqI, rule iffI)
    fix p
    assume "p \<in> ?R"
    then obtain k t where t: "(k, t) \<in> set ?d" and p: "p = (fqdn t, ts_address t)"
      and mesh: "isTailscaleIP env (ts_address t)"
      by blast
    from dict_entry [OF t] obtain dev where "dev \<in> set ts_records" and "t = ts_value env cfg dev"
      by blast
    with p mesh show "p \<in> {p \<in> derivable_pairs env cfg ts_records. isTailscaleIP env (snd p)}"
      by (auto simp: derivable_pairs_def ts_value_def)
  next
    fix p
    assume "p \<in> {p \<in> derivable_pairs env cfg ts_records. isTailscaleIP env (snd p)}"
    then obtain dev where dev: "dev \<in> set ts_records" and p: "p = (tsfqdn env cfg dev, address dev)"
      and mesh: "isTailscaleIP env (address dev)"
      by (auto simp: derivable_pairs_def)
    from dev have "ts_key env cfg dev \<in> fst ` set ?d"
      by (simp add: dict_keys)
    then obtain t where t: "(ts_key env cfg dev, t) \<in> set ?d"
      by force
    from dict_entry [OF t] obtain dev' where dev': "dev' \<in> set ts_records"
      and key: "ts_key env cfg dev' = ts_key env cfg dev" and tv: "t = ts_value env cfg dev'"
      by blast
    from key have "tsfqdn env cfg dev' @ ''_'' @ address dev' = tsfqdn env cfg dev @ ''_'' @ address dev"
      by (simp add: ts_key_def)
    moreover from us1 dev dev' have "CHR ''_'' \<notin> set (address dev')" and "CHR ''_'' \<notin> set (address dev)"
      by simp_all
    ultimately have same: "tsfqdn env cfg dev' = tsfqdn env cfg dev \<and> address dev' = address dev"
      by (rule key_split_unique)
    from same tv p have p': "p = (fqdn t, ts_address t)"
      by (simp add: ts_value_def)
    from same tv mesh have "isTailscaleIP env (ts_address t)"
      by (simp add: ts_value_def)
    with passes [OF t] p' t show "p \<in> ?R"
      by auto
  qed
  have all: "{p \<in> derivable_pairs env cfg ts_records. isTailscaleIP env (snd p)}
      = derivable_pairs env cfg ts_records"
    if "\<forall>dev \<in> set ts_records. isTailscaleIP env (address dev)"
    using that by (auto simp: derivable_pairs_def)
  from main R all show ?thesis by simp
qed

text \<open>
  A zone with a stale record, a non-mesh record under the suffix, a record outside
  the suffix and an up-to-date record; an inventory with one device to create and one
  device whose address lies outside the mesh range.
\<close>

theorem convergence_witness:
  "perform_sync_cycle
       (ex_env id
          [ex_zone_rec ''r1'' ''old.example.com'' ''100.64.0.9'',
           ex_zone_rec ''r2'' ''printer.example.com'' ''203.0.113.5'',
           ex_zone_rec ''r3'' ''www.other.org'' ''100.64.0.5'',
           ex_zone_rec ''r4'' ''Laptop.Example.com'' ''100.64.0.1'']
          [ex_device ''laptop'' ''100.64.0.1'', ex_device ''nas'' ''100.64.0.2'',
           ex_device ''gw'' ''10.0.0.5''])
       ex_cfg
     = ([UP_TO_DATE ''laptop.example.com'' ''100.64.0.1'',
         ADDING ''nas.example.com'' ''100.64.0.2'',
         Call_createDNSRecord ''token'' ''example.com'' ''nas'' ''A'' ''100.64.0.2'' None ''zone-1'',
         ADDING ''gw.example.com'' ''10.0.0.5'',
         Call_createDNSRecord ''token'' ''example.com'' ''gw'' ''A'' ''10.0.0.5'' None ''zone-1'',
         DELETING_STALE ''old.example.com'' ''100.64.0.9'',
         Call_deleteDNSRecord ''token'' ''example.com'' ''r1'' ''zone-1'',
         SKIP_DELETE ''printer.example.com'' ''203.0.113.5''], Completed)
   \<and> managed_subset
       (ex_env id
          [ex_zone_rec ''r1'' ''old.example.com'' ''100.64.0.9'',
           ex_zone_rec ''r2'' ''printer.example.com'' ''203.0.113.5'',
           ex_zone_rec ''r3'' ''www.other.org'' ''100.64.0.5'',
           ex_zone_rec ''r4'' ''Laptop.Example.com'' ''100.64.0.1'']
          [ex_device ''laptop'' ''100.64.0.1'', ex_device ''nas'' ''100.64.0.2'',
           ex_device ''gw'' ''10.0.0.5''])
       ex_cfg
       (zone_after id
          [ex_zone_rec ''r1'' ''old.example.com'' ''100.64.0.9'',
           ex_zone_rec ''r2'' ''printer.example.com'' ''203.0.113.5'',
           ex_zone_rec ''r3'' ''www.other.org'' ''100.64.0.5'',
           ex_zone_rec ''r4'' ''Laptop.Example.com'' ''100.64.0.1'']
          [UP_TO_DATE ''laptop.example.com'' ''100.64.0.1'',
           ADDING ''nas.example.com'' ''100.64.0.2'',
           Call_createDNSRecord ''token'' ''example.com'' ''nas'' ''A'' ''100.64.0.2'' None ''zone-1'',
           ADDING ''gw.example.com'' ''10.0.0.5'',
           Call_createDNSRecord ''token'' ''example.com'' ''gw'' ''A'' ''10.0.0.5'' None ''zone-1'',
           DELETING_STALE ''old.example.com'' ''100.64.0.9'',
           Call_deleteDNSRecord ''token'' ''example.com'' ''r1'' ''zone-1'',
           SKIP_DELETE ''printer.example.com'' ''203.0.113.5''])
     = {(''laptop.example.com'', ''100.64.0.1''), (''nas.example.com'', ''100.64.0.2'')}"
proof -
  let ?z = "[ex_zone_rec ''r1'' ''old.example.com'' ''100.64.0.9'',
           ex_zone_rec ''r2'' ''printer.example.com'' ''203.0.113.5'',
           ex_zone_rec ''r3'' ''www.other.org'' ''100.64.0.5'',
           ex_zone_rec ''r4'' ''Laptop.Example.com'' ''100.64.0.1'']"
  let ?inv = "[ex_device ''laptop'' ''100.64.0.1'', ex_device ''nas'' ''100.64.0.2'',
           ex_device ''gw'' ''10.0.0.5'']"
  let ?env = "ex_env id ?z ?inv"
  let ?evs1 = "[UP_TO_DATE ''laptop.example.com'' ''100.64.0.1'',
         ADDING ''nas.example.com'' ''100.64.0.2'',
         Call_createDNSRecord ''token'' ''example.com'' ''nas'' ''A'' ''100.64.0.2'' None ''zone-1'',
         ADDING ''gw.example.com'' ''10.0.0.5'',
         Call_createDNSRecord ''token'' ''example.com'' ''gw'' ''A'' ''10.0.0.5'' None ''zone-1'']"
  let ?evs2 = "[DELETING_STALE ''old.example.com'' ''100.64.0.9'',
         Call_deleteDNSRecord ''token'' ''example.com'' ''r1'' ''zone-1'',
         SKIP_DELETE ''printer.example.com'' ''203.0.113.5'']"
  let ?new1 = "\<lparr>rec_id = fresh_id ?z, name = ''nas.example.com'', content = ''100.64.0.2'',
               rec_type = ''A''\<rparr>"
  let ?new2 = "\<lparr>rec_id = fresh_id (?z @ [?new1]), name = ''gw.example.com'', content = ''10.0.0.5'',
               rec_type = ''A''\<rparr>"
  have alter: "alterHostname ?env = id"
    by (simp add: ex_env_def)
  have prov: "getZoneRecords ?env = provider (alterHostname ?env) ?z"
    by (simp add: ex_env_def)
  have inv: "fetch_ts_records ?env ex_cfg = Some (Some ?inv)"
    by (simp add: fetch_ts_records_def ex_env_def ex_cfg_def)
  have lc: "\<forall>l. lower (alterHostname ?env (lower l)) = alterHostname ?env (lower l)"
    by (simp add: alter lower_idem)
  have dist: "distinct (map rec_id ?z)"
    by (simp add: ex_zone_rec_def)
  have us1: "\<forall>dev \<in> set ?inv. CHR ''_'' \<notin> set (address dev)"
    by (simp add: ex_device_def)
  have us2: "\<forall>c. isTailscaleIP ?env c \<longrightarrow> CHR ''_'' \<notin> set c"
    by (simp add: ex_env_def ex_mesh_ip_no_underscore)
  have d: "current_ts_fqdns_ips ?env ex_cfg ?inv
      = [(''laptop.example.com_100.64.0.1'',
          \<lparr>fqdn = ''laptop.example.com'', ts_address = ''100.64.0.1'', original_hostname = ''laptop''\<rparr>),
         (''nas.example.com_100.64.0.2'',
          \<lparr>fqdn = ''nas.example.com'', ts_address = ''100.64.0.2'', original_hostname = ''nas''\<rparr>),
         (''gw.example.com_10.0.0.5'',
          \<lparr>fqdn = ''gw.example.com'', ts_address = ''10.0.0.5'', original_hostname = ''gw''\<rparr>)]"
    by (simp add: ex_defs eval_defs)
  have run: "creation_loop ?env ex_cfg ''zone-1'' ?z (current_ts_fqdns_ips ?env ex_cfg ?inv)
      = (?evs1, None)"
    unfolding d by (simp add: ex_defs eval_defs)
  have z1: "zone_after id ?z ?evs1 = ?z @ [?new1, ?new2]"
    by (simp add: zone_after_def created_name_def)
  have clean: "cleanup_loop ?env ex_cfg ''zone-1'' (current_ts_fqdns_ips ?env ex_cfg ?inv)
        (?z @ [?new1, ?new2]) = ?evs2"
    unfolding d by (simp add: ex_defs eval_defs)
  have zid: "getZoneId ?env = Some ''zone-1''"
    by (simp add: ex_env_def)
  have fetch0: "getZoneRecords ?env [] = Some ?z"
    by (simp add: ex_env_def provider_def zone_after_Nil)
  have fetch1: "getZoneRecords ?env ?evs1 = Some (?z @ [?new1, ?new2])"
    using z1 by (simp add: ex_env_def provider_def)
  have "perform_sync_cycle ?env ex_cfg
      = (?evs1 @ cleanup_loop ?env ex_cfg ''zone-1'' (current_ts_fqdns_ips ?env ex_cfg ?inv)
                   (?z @ [?new1, ?new2]), Completed)"
    by (rule cycle_run [OF zid _ fetch0 inv run fetch1]) simp
  then have cyc: "perform_sync_cycle ?env ex_cfg = (?evs1 @ ?evs2, Completed)"
    by (simp only: clean)
  have no_failure: "\<forall>e \<in> set (?evs1 @ ?evs2). \<not> is_skipping e"
    by simp
  have pairs_list: "{p \<in> derivable_pairs ?env ex_cfg ?inv. isTailscaleIP ?env (snd p)}
      = set (filter (\<lambda>p. isTailscaleIP ?env (snd p))
               (map (\<lambda>r. (tsfqdn ?env ex_cfg r, address r)) ?inv))"
    by (simp only: derivable_pairs_def set_filter)
  have pairs: "{p \<in> derivable_pairs ?env ex_cfg ?inv. isTailscaleIP ?env (snd p)}
      = {(''laptop.example.com'', ''100.64.0.1''), (''nas.example.com'', ''100.64.0.2'')}"
    unfolding pairs_list by (simp add: ex_defs eval_defs)
  from convergence [OF prov cyc inv no_failure lc dist us1 us2]
  have "managed_subset ?env ex_cfg (zone_after (alterHostname ?env) ?z (?evs1 @ ?evs2))
      = {p \<in> derivable_pairs ?env ex_cfg ?inv. isTailscaleIP ?env (snd p)}"
    by (rule conjunct1)
  then have managed: "managed_subset ?env ex_cfg (zone_after id ?z (?evs1 @ ?evs2))
      = {(''laptop.example.com'', ''100.64.0.1''), (''nas.example.com'', ''100.64.0.2'')}"
    by (simp only: pairs alter)
  from cyc managed show ?thesis
    by (simp only: append.simps)
qed

text \<open>
  C1 as stated fails: the creation phase does not ask whether an address is a mesh
  address, and the managed subset holds mesh addresses only. A device with a valid
  host name and an address outside the mesh range is created in a cycle without any
  error or validation failure; its pair is derivable from the inventory and is not in
  the managed subset of the zone.
\<close>

theorem convergence_non_mesh_address_counterexample:
  "perform_sync_cycle (ex_env id [] [ex_device ''nas'' ''10.0.0.5'']) ex_cfg
     = ([ADDING ''nas.example.com'' ''10.0.0.5'',
         Call_createDNSRecord ''token'' ''example.com'' ''nas'' ''A'' ''10.0.0.5'' None ''zone-1''],
        Completed)
   \<and> managed_subset (ex_env id [] [ex_device ''nas'' ''10.0.0.5'']) ex_cfg
        (zone_after id []
           [ADDING ''nas.example.com'' ''10.0.0.5'',
            Call_createDNSRecord ''token'' ''example.com'' ''nas'' ''A'' ''10.0.0.5'' None ''zone-1''])
     = {}
   \<and> derivable_pairs (ex_env id [] [ex_device ''nas'' ''10.0.0.5'']) ex_cfg
        [ex_device ''nas'' ''10.0.0.5'']
     = {(''nas.example.com'', ''10.0.0.5'')}"
proof -
  let ?inv = "[ex_device ''nas'' ''10.0.0.5'']"
  let ?env = "ex_env id [] ?inv"
  let ?evs1 = "[ADDING ''nas.example.com'' ''10.0.0.5'',
         Call_createDNSRecord ''token'' ''example.com'' ''nas'' ''A'' ''10.0.0.5'' None ''zone-1'']"
  let ?new = "\<lparr>rec_id = fresh_id [], name = ''nas.example.com'', content = ''10.0.0.5'',
               rec_type = ''A''\<rparr>"
  have zid: "getZoneId ?env = Some ''zone-1''"
    by (simp add: ex_env_def)
  have inv: "fetch_ts_records ?env ex_cfg = Some (Some ?inv)"
    by (simp add: fetch_ts_records_def ex_env_def ex_cfg_def)
  have fetch0: "getZoneRecords ?env [] = Some []"
    by (simp add: ex_env_def provider_def zone_after_Nil)
  have d: "current_ts_fqdns_ips ?env ex_cfg ?inv
      = [(''nas.example.com_10.0.0.5'',
          \<lparr>fqdn = ''nas.example.com'', ts_address = ''10.0.0.5'', original_hostname = ''nas''\<rparr>)]"
    by (simp add: ex_defs eval_defs)
  have run: "creation_loop ?env ex_cfg ''zone-1'' [] (current_ts_fqdns_ips ?env ex_cfg ?inv)
      = (?evs1, None)"
    unfolding d by (simp add: ex_defs eval_defs)
  have z1: "zone_after id [] ?evs1 = [?new]"
    by (simp add: zone_after_def created_name_def)
  have fetch1: "getZoneRecords ?env ?evs1 = Some [?new]"
    by (simp add: ex_env_def provider_def z1)
  have clean: "cleanup_loop ?env ex_cfg ''zone-1'' (current_ts_fqdns_ips ?env ex_cfg ?inv) [?new] = []"
    unfolding d by (simp add: ex_defs eval_defs)
  have "perform_sync_cycle ?env ex_cfg
      = (?evs1 @ cleanup_loop ?env ex_cfg ''zone-1'' (current_ts_fqdns_ips ?env ex_cfg ?inv) [?new],
         Completed)"
    by (rule cycle_run [OF zid _ fetch0 inv run fetch1]) simp
  then have cyc: "perform_sync_cycle ?env ex_cfg = (?evs1, Completed)"
    by (simp only: clean append_Nil2)
  have managed: "managed_subset ?env ex_cfg (zone_after id [] ?evs1) = {}"
    unfolding z1 by (simp add: managed_subset_def ex_defs eval_defs)
  have derivable: "derivable_pairs ?env ex_cfg ?inv = {(''nas.example.com'', ''10.0.0.5'')}"
    by (simp add: derivable_pairs_def ex_defs eval_defs)
  from cyc managed derivable show ?thesis by (intro conjI)
qed

end
